theory Spec2Isabelle
  imports Complex_Main "HOL-Library.Log_Nat"
begin

section \<open>MosaicConverter: the data model of main.py\<close>

text \<open>
  The program reads a directory \<^verbatim>\<open>mosaics\<close> of tile images, keeps a text file
  \<^verbatim>\<open>./cache\<close> of alternating md5 digests and average colours, matches every
  pixel of a source image against the palette and loads the tiles the match uses.

  What lies outside main.py is data of the model:
  \<^item> a directory entry carries what the operating system and PIL answer for it:
    whether it is a regular file, what \<^verbatim>\<open>get_image_hash\<close> returns for it (or that
    reading raises), what \<^verbatim>\<open>Image.open\<close> returns for it (or that it raises), and
    whether \<^verbatim>\<open>os.remove\<close> succeeds on it;
  \<^item> numpy's conversion of a float64 to text and its text parser are the two fields of
    a record \<open>numpy\<close> that the functions take as a parameter;
  \<^item> a finite float64 is modelled by the rational number it denotes and an int64 by
    the integer it denotes; the cast from the one to the other, the wrap-around of
    int64 arithmetic and the rounding of float64 arithmetic are written out where
    main.py computes with them. The mean of the pixels of a tile is kept exact: the
    text numpy prints for it is a parameter;
  \<^item> the cache file is modelled by the list of its lines: main.py writes every element
    followed by a newline and reads the lines back with the newline stripped.
\<close>

type_synonym pixel = "int \<times> int \<times> int"

record pil_image =
  img_size :: "nat \<times> nat"
  mode :: string
  getdata :: "pixel list"

record entry =
  name :: string
  is_file :: bool
  md5 :: "string option"
  opens :: "pil_image option"
  removable :: bool

text \<open>
  The values of an array of dtype float: the finite ones, the two infinities and nan.
  \<^verbatim>\<open>numpy.fromstring\<close> gives all of them (the text \<^verbatim>\<open>inf\<close> or \<^verbatim>\<open>nan\<close> parses).
\<close>

datatype float64 = Finite rat | PosInf | NegInf | NaN

text \<open>
  \<open>str_float q\<close> is the text \<^verbatim>\<open>str\<close> gives for the float64 nearest to \<open>q\<close>, and
  \<open>fromstring s\<close> is \<^verbatim>\<open>numpy.fromstring(s, dtype=float, sep=' ')\<close>.
\<close>

record numpy =
  str_float :: "rat \<Rightarrow> string"
  fromstring :: "string \<Rightarrow> float64 list"

text \<open>Every \<^verbatim>\<open>print\<close> of main.py is a constructor, with the values it interpolates.\<close>

datatype message =
    Invalid_file_or_path string
  | Invalid_image_size nat nat string
  | Unknown_mode string string
  | Error_converting
  | Retrieving_palette
  | Invalid_image_at string
  | Finished_palette
  | Retrieving_mask
  | Finished_mask
  | Loading_used
  | Error_loading string
  | Finished_loading
  | Generating_final
  | Finished_generating
  | Supply_more_mosaics

text \<open>The exceptions that leave a function of main.py uncaught.\<close>

datatype error =
    ValueError_broadcast
  | ValueError_argmin
  | ZeroDivisionError
  | ValueError_paste
  | IndexError

text \<open>
  The state the program acts on: the listing of \<^verbatim>\<open>mosaics\<close> in the order
  \<^verbatim>\<open>scandir\<close> yields it, the cache file (\<open>None\<close> when \<^verbatim>\<open>./cache\<close> does not
  exist), the standard output, the paths handed to \<^verbatim>\<open>Image.open\<close> so far and the
  contents written to \<^verbatim>\<open>./cache\<close> so far.
\<close>

record world =
  mosaics :: "entry list"
  cache_file :: "string list option"
  stdout :: "message list"
  opened :: "string list"
  written :: "string list list"

definition py_print :: "message \<Rightarrow> world \<Rightarrow> world" where
  "py_print m w = w\<lparr>stdout := stdout w @ [m]\<rparr>"

definition path :: "entry \<Rightarrow> string" where
  "path e = ''mosaics/'' @ name e"

definition remove :: "entry \<Rightarrow> world \<Rightarrow> world" where
  "remove e w = w\<lparr>mosaics := filter (\<lambda>x. x \<noteq> e) (mosaics w)\<rparr>"

section \<open>get_image and get_image_hash\<close>

text \<open>
  \<^verbatim>\<open>pixel_values = numpy.array(image.getdata()).reshape((width, height, 3))\<close>:
  the flat list of pixels cut into \<open>width\<close> rows of \<open>height\<close> pixels.
\<close>

definition reshape :: "nat \<Rightarrow> nat \<Rightarrow> 'a list \<Rightarrow> 'a list list" where
  "reshape width height xs = map (\<lambda>x. take height (drop (x * height) xs)) [0..<width]"

text \<open>
  \<open>get_image image_path img ignore_size\<close>, where \<open>img\<close> is what
  \<^verbatim>\<open>Image.open(image_path)\<close> gave, after the resize when one is asked for
  (\<open>None\<close> when it raised). \<open>Inl m\<close>: the function prints \<open>m\<close> and returns
  \<^verbatim>\<open>None\<close>. The reshape raises, and is caught, when the number of pixels is not
  \<open>width * height\<close>.
\<close>

definition get_image :: "string \<Rightarrow> pil_image option \<Rightarrow> bool \<Rightarrow> message + pixel list list" where
  "get_image image_path img ignore_size =
     (case img of
        None \<Rightarrow> Inl (Invalid_file_or_path image_path)
      | Some im \<Rightarrow>
          (let width = fst (img_size im); height = snd (img_size im) in
           if ignore_size = False \<and> (width \<noteq> 48 \<or> height \<noteq> 48)
             then Inl (Invalid_image_size width height image_path)
           else if mode im \<noteq> ''RGB''
             then Inl (Unknown_mode (mode im) image_path)
           else if length (getdata im) \<noteq> width * height
             then Inl Error_converting
           else Inr (reshape width height (getdata im))))"

text \<open>\<open>get_image_hash (path e)\<close> is the field \<open>md5 e\<close>; \<open>None\<close> when reading raises.\<close>

definition get_image_hash :: "entry \<Rightarrow> string option" where
  "get_image_hash e = md5 e"

section \<open>parse_mosaic_palette\<close>

text \<open>
  An array of dtype int holds int64 values: the integers from \<open>- 2 ^ 63\<close> to
  \<open>2 ^ 63 - 1\<close>. \<open>int64 x\<close> is the number the low 64 bits of \<open>x\<close> denote in two's
  complement, which is what an operation on int64 stores when its exact result is \<open>x\<close>.
\<close>

definition int64 :: "int \<Rightarrow> int" where
  "int64 x = (x + 2 ^ 63) mod 2 ^ 64 - 2 ^ 63"

text \<open>Truncation towards zero.\<close>

definition trunc :: "rat \<Rightarrow> int" where
  "trunc q = (if 0 \<le> q then \<lfloor>q\<rfloor> else \<lceil>q\<rceil>)"

text \<open>
  The cast of a float64 to int64 that the assignment into the array of dtype int
  performs: the number truncated towards zero when that is an int64, and \<open>- 2 ^ 63\<close>
  for every other value (a number out of range, an infinity, nan), which is what the
  conversion instruction of x86-64 leaves and numpy stores.
\<close>

definition astype_int64 :: "float64 \<Rightarrow> int" where
  "astype_int64 x =
     (case x of
        Finite q \<Rightarrow> if - (2 ^ 63) \<le> trunc q \<and> trunc q < 2 ^ 63 then trunc q else - (2 ^ 63)
      | PosInf \<Rightarrow> - (2 ^ 63)
      | NegInf \<Rightarrow> - (2 ^ 63)
      | NaN \<Rightarrow> - (2 ^ 63))"

text \<open>
  \<^verbatim>\<open>parsed_mosaic_palette[1][i] = numpy.fromstring(...)\<close>: the row has three cells
  of dtype int; an array of three floats is cast cell by cell, an array of one float
  is broadcast to the three cells, an array of any other length raises ValueError.
\<close>

fun assign_row :: "float64 list \<Rightarrow> error + pixel" where
  "assign_row [a] = Inr (astype_int64 a, astype_int64 a, astype_int64 a)"
| "assign_row [a, b, c] = Inr (astype_int64 a, astype_int64 b, astype_int64 c)"
| "assign_row _ = Inl ValueError_broadcast"

text \<open>A loop whose body may raise: the first exception ends it.\<close>

primrec traverse :: "('a \<Rightarrow> error + 'b) \<Rightarrow> 'a list \<Rightarrow> error + 'b list" where
  "traverse f [] = Inr []"
| "traverse f (x # xs) =
     (case f x of
        Inl e \<Rightarrow> Inl e
      | Inr y \<Rightarrow> (case traverse f xs of Inl e \<Rightarrow> Inl e | Inr ys \<Rightarrow> Inr (y # ys)))"

text \<open>
  The result is the pair of arrays of main.py: the fingerprints and the rows of
  colours, both of length \<open>total_elements\<close>.
\<close>

definition parse_mosaic_palette :: "numpy \<Rightarrow> string list \<Rightarrow> error + (string list \<times> pixel list)" where
  "parse_mosaic_palette np mosaic_palette =
     (let total_elements = length mosaic_palette div 2 in
      case traverse (\<lambda>i. assign_row (fromstring np (mosaic_palette ! (i * 2 + 1))))
             [0..<total_elements] of
        Inl e \<Rightarrow> Inl e
      | Inr colours \<Rightarrow> Inr (map (\<lambda>i. mosaic_palette ! (i * 2)) [0..<total_elements], colours))"

section \<open>get_mosaic_palette\<close>

text \<open>\<^verbatim>\<open>saved_values.index(image_hash)\<close>, called only when the hash is in the list.\<close>

fun index :: "'a list \<Rightarrow> 'a \<Rightarrow> nat" where
  "index [] a = 0"
| "index (x # xs) a = (if x = a then 0 else Suc (index xs a))"

text \<open>
  \<^verbatim>\<open>numpy.average(pixel_values.transpose(2, 0, 1).reshape(3, -1), axis=1)\<close>: the mean
  of each channel over all the pixels.
\<close>

definition mean :: "int list \<Rightarrow> rat" where
  "mean xs = of_int (sum_list xs) / of_nat (length xs)"

definition average :: "pixel list list \<Rightarrow> rat \<times> rat \<times> rat" where
  "average pixel_values =
     (let ps = concat pixel_values in
      (mean (map fst ps), mean (map (\<lambda>p. fst (snd p)) ps), mean (map (\<lambda>p. snd (snd p)) ps)))"

text \<open>\<^verbatim>\<open>f"{pixel_values[0]} {pixel_values[1]} {pixel_values[2]}"\<close>\<close>

definition colour_line :: "numpy \<Rightarrow> rat \<times> rat \<times> rat \<Rightarrow> string" where
  "colour_line np v =
     str_float np (fst v) @ '' '' @ str_float np (fst (snd v)) @ '' '' @ str_float np (snd (snd v))"

text \<open>
  The body of the loop over the directory, on the world and the list \<open>cache\<close>.
  Whatever raises inside the \<^verbatim>\<open>try\<close> is caught: the message is printed and the
  loop goes on. That is the case of a hash that cannot be read, of a
  \<^verbatim>\<open>remove\<close> that fails, and of a hash that is the last line of
  \<open>saved_values\<close>: there \<^verbatim>\<open>cache.append(image_hash)\<close> has run before the index
  is out of range.
\<close>

definition palette_step :: "numpy \<Rightarrow> bool \<Rightarrow> string list \<Rightarrow> entry \<Rightarrow> world \<times> string list \<Rightarrow> world \<times> string list" where
  "palette_step np delete_flag saved_values e s =
     (let w = fst s; cache = snd s in
      if \<not> is_file e \<or> name e = ''.gitkeep'' then s
      else case get_image_hash e of
        None \<Rightarrow> (py_print (Invalid_image_at (name e)) w, cache)
      | Some image_hash \<Rightarrow>
          if image_hash \<notin> set saved_values then
            (let w1 = w\<lparr>opened := opened w @ [path e]\<rparr> in
             case get_image (path e) (opens e) False of
               Inl m \<Rightarrow>
                 (let w2 = py_print m w1 in
                  if delete_flag = True then
                    (if removable e then (remove e w2, cache)
                     else (py_print (Invalid_image_at (name e)) w2, cache))
                  else (w2, cache))
             | Inr pixel_values \<Rightarrow>
                 (w1, cache @ [image_hash, colour_line np (average pixel_values)]))
          else
            (if index saved_values image_hash + 1 < length saved_values
             then (w, cache @ [image_hash, saved_values ! (index saved_values image_hash + 1)])
             else (py_print (Invalid_image_at (name e)) w, cache @ [image_hash])))"

definition saved_lines :: "world \<Rightarrow> string list" where
  "saved_lines w = (case cache_file w of None \<Rightarrow> [] | Some ls \<Rightarrow> ls)"

text \<open>The loop runs over the listing the directory had when \<^verbatim>\<open>scandir\<close> was called.\<close>

definition reconcile :: "numpy \<Rightarrow> bool \<Rightarrow> world \<Rightarrow> world \<times> string list" where
  "reconcile np delete_flag w =
     fold (palette_step np delete_flag (saved_lines w)) (mosaics w) (w, [])"

definition get_mosaic_palette :: "numpy \<Rightarrow> bool \<Rightarrow> world \<Rightarrow> world \<times> (error + (string list \<times> pixel list))" where
  "get_mosaic_palette np delete_flag w =
     (let w0 = py_print Retrieving_palette w;
          saved_values = saved_lines w0;
          r = reconcile np delete_flag w0;
          cache = snd r;
          w1 = (if saved_values \<noteq> cache
                then (fst r)\<lparr>cache_file := Some cache, written := written (fst r) @ [cache]\<rparr>
                else fst r);
          w2 = py_print Finished_palette w1
      in (w2, parse_mosaic_palette np cache))"

section \<open>get_image_mask\<close>

text \<open>
  The arithmetic of float64 rounds every result to the nearest number with a
  significand of 53 bits, a tie going to the even significand. \<open>binade q\<close> is the
  exponent of the power of two at or below \<open>\<bar>q\<bar>\<close>. The limits of the exponent are
  not modelled: the numbers main.py rounds are quotients by 3 of sums of three int64,
  so they are 0 or lie between 1/3 and \<open>2 ^ 65\<close> in absolute value.
\<close>

definition round_half_even :: "rat \<Rightarrow> int" where
  "round_half_even q =
     (let f = \<lfloor>q\<rfloor> in
      if q - of_int f < 1 / 2 then f
      else if 1 / 2 < q - of_int f then f + 1
      else if even f then f else f + 1)"

definition binade :: "rat \<Rightarrow> int" where
  "binade q = (if 1 \<le> \<bar>q\<bar> then bitlen \<lfloor>\<bar>q\<bar>\<rfloor> - 1 else - bitlen (\<lceil>1 / \<bar>q\<bar>\<rceil> - 1))"

definition round_float64 :: "rat \<Rightarrow> rat" where
  "round_float64 q =
     (if q = 0 then 0
      else
        (let e = binade q - 52 in
         if 0 \<le> e then of_int (round_half_even (q / 2 ^ nat e)) * 2 ^ nat e
         else of_int (round_half_even (q * 2 ^ nat (- e))) / 2 ^ nat (- e)))"

text \<open>
  \<^verbatim>\<open>numpy.average(numpy.abs(mosaic_palette[1] - pixel_values[x, y]), axis=1)\<close> for one
  row of the palette. The subtraction and \<^verbatim>\<open>abs\<close> are int64 operations and wrap
  (the absolute value of \<open>- 2 ^ 63\<close> is \<open>- 2 ^ 63\<close>); the average converts the three
  differences to float64, adds them from left to right and divides the sum by 3.
\<close>

definition distance :: "pixel \<Rightarrow> pixel \<Rightarrow> rat" where
  "distance c p =
     (let d0 = int64 \<bar>int64 (fst c - fst p)\<bar>;
          d1 = int64 \<bar>int64 (fst (snd c) - fst (snd p))\<bar>;
          d2 = int64 \<bar>int64 (snd (snd c) - snd (snd p))\<bar>;
          s = round_float64
                (round_float64 (round_float64 (of_int d0) + round_float64 (of_int d1))
                 + round_float64 (of_int d2))
      in round_float64 (s / 3))"

text \<open>\<^verbatim>\<open>argmin\<close>: the first index of the least element; ValueError on an empty array.\<close>

fun argmin_loop :: "rat list \<Rightarrow> nat \<Rightarrow> nat \<Rightarrow> rat \<Rightarrow> nat" where
  "argmin_loop [] i best v = best"
| "argmin_loop (x # xs) i best v =
     (if x < v then argmin_loop xs (Suc i) i x else argmin_loop xs (Suc i) best v)"

definition argmin :: "rat list \<Rightarrow> error + nat" where
  "argmin ds = (case ds of [] \<Rightarrow> Inl ValueError_argmin | d # rest \<Rightarrow> Inr (argmin_loop rest 1 0 d))"

text \<open>
  One cell of the mask. On a palette without rows \<^verbatim>\<open>numpy.average\<close> divides the size
  of its argument by the size of its result, 0 by 0, and raises ZeroDivisionError
  before \<^verbatim>\<open>argmin\<close> is called.
\<close>

definition match_pixel :: "string list \<times> pixel list \<Rightarrow> pixel \<Rightarrow> error + string" where
  "match_pixel mosaic_palette p =
     (if snd mosaic_palette = [] then Inl ZeroDivisionError
      else case argmin (map (\<lambda>c. distance c p) (snd mosaic_palette)) of
        Inl e \<Rightarrow> Inl e
      | Inr pixel_md5_index \<Rightarrow>
          if pixel_md5_index < length (fst mosaic_palette)
          then Inr (fst mosaic_palette ! pixel_md5_index)
          else Inl IndexError)"

text \<open>
  The grid is a list of \<open>shape[0]\<close> rows of \<open>shape[1]\<close> pixels. When a cell raises,
  the function is left before it prints that it has finished.
\<close>

definition get_image_mask :: "pixel list list \<Rightarrow> string list \<times> pixel list \<Rightarrow> world \<Rightarrow> world \<times> (error + string list list)" where
  "get_image_mask pixel_values mosaic_palette w =
     (let w1 = py_print Retrieving_mask w in
      case traverse (traverse (match_pixel mosaic_palette)) pixel_values of
        Inl e \<Rightarrow> (w1, Inl e)
      | Inr image_mask \<Rightarrow> (py_print Finished_mask w1, Inr image_mask))"

section \<open>load_used_images\<close>

text \<open>
  The loop over the directory with the dictionary \<open>images_data\<close>; \<open>None\<close> is the
  \<^verbatim>\<open>return None\<close> of the \<^verbatim>\<open>except\<close> branch. \<^verbatim>\<open>image_hash in image_mask\<close>
  holds when some cell of the mask equals the hash.
\<close>

fun load_loop :: "string list list \<Rightarrow> entry list \<Rightarrow> (string \<rightharpoonup> pil_image) \<Rightarrow> world \<Rightarrow> world \<times> (string \<rightharpoonup> pil_image) option" where
  "load_loop image_mask [] images_data w = (py_print Finished_loading w, Some images_data)"
| "load_loop image_mask (e # es) images_data w =
     (if \<not> is_file e then load_loop image_mask es images_data w
      else case get_image_hash e of
        None \<Rightarrow> (py_print (Error_loading (name e)) w, None)
      | Some image_hash \<Rightarrow>
          if image_hash \<in> set (concat image_mask) then
            (let w1 = w\<lparr>opened := opened w @ [path e]\<rparr> in
             case opens e of
               None \<Rightarrow> (py_print (Error_loading (name e)) w1, None)
             | Some im \<Rightarrow> load_loop image_mask es (images_data(image_hash \<mapsto> im)) w1)
          else load_loop image_mask es images_data w)"

definition load_used_images :: "string list list \<Rightarrow> world \<Rightarrow> world \<times> (string \<rightharpoonup> pil_image) option" where
  "load_used_images image_mask w =
     load_loop image_mask (mosaics w) Map.empty (py_print Loading_used w)"

section \<open>generate_image and the main program\<close>

text \<open>
  The output image is modelled by the tile pasted at each cell of the mask; the cell
  \<open>(x, y)\<close> is pasted at the offset \<open>(x * 48, y * 48)\<close>. \<^verbatim>\<open>paste\<close> raises ValueError
  when \<^verbatim>\<open>loaded_data.get\<close> gave \<^verbatim>\<open>None\<close>.
\<close>

definition generate_image :: "string list list \<Rightarrow> (string \<rightharpoonup> pil_image) \<Rightarrow> world \<Rightarrow> world \<times> (error + pil_image list list)" where
  "generate_image image_mask loaded_data w =
     (let w1 = py_print Generating_final w in
      case traverse (traverse (\<lambda>h. case loaded_data h of
                                      None \<Rightarrow> Inl ValueError_paste
                                    | Some image_data \<Rightarrow> Inr image_data)) image_mask of
        Inl e \<Rightarrow> (w1, Inl e)
      | Inr new_image \<Rightarrow> (py_print Finished_generating w1, Inr new_image))"

text \<open>
  How the program ends: \<^verbatim>\<open>quit(n)\<close>, with the image it shows or saves when there is
  one, or an uncaught exception.
\<close>

datatype outcome =
    Quit nat "pil_image list list option"
  | Uncaught error

text \<open>
  \<open>main np source delete\<close>: \<open>source\<close> is what \<^verbatim>\<open>Image.open(args.image_path)\<close>
  gave after the resize of \<^verbatim>\<open>-r\<close>, \<open>delete\<close> is the flag \<^verbatim>\<open>-d\<close>. The parsing of
  the command line and the last \<^verbatim>\<open>show\<close> or \<^verbatim>\<open>save\<close> are not modelled.
\<close>

definition main :: "numpy \<Rightarrow> string \<Rightarrow> pil_image option \<Rightarrow> bool \<Rightarrow> world \<Rightarrow> world \<times> outcome" where
  "main np image_path source delete w =
     (case get_image image_path source True of
        Inl m \<Rightarrow> (py_print m (w\<lparr>opened := opened w @ [image_path]\<rparr>), Quit 1 None)
      | Inr pixel_values \<Rightarrow>
          (let p = get_mosaic_palette np delete (w\<lparr>opened := opened w @ [image_path]\<rparr>) in
           case snd p of
             Inl e \<Rightarrow> (fst p, Uncaught e)
           | Inr mosaic_palette \<Rightarrow>
               if length (fst mosaic_palette) = 0
               then (py_print Supply_more_mosaics (fst p), Quit 1 None)
               else
                 (let m = get_image_mask pixel_values mosaic_palette (fst p) in
                  case snd m of
                    Inl e \<Rightarrow> (fst m, Uncaught e)
                  | Inr image_mask \<Rightarrow>
                      (let l = load_used_images image_mask (fst m) in
                       case snd l of
                         None \<Rightarrow> (fst l, Quit 1 None)
                       | Some loaded_images \<Rightarrow>
                           (let g = generate_image image_mask loaded_images (fst l) in
                            case snd g of
                              Inl e \<Rightarrow> (fst g, Uncaught e)
                            | Inr new_image \<Rightarrow> (fst g, Quit 0 (Some new_image)))))))"

section \<open>Notions the properties are stated with\<close>

text \<open>
  The measure the matcher is meant to minimise, on exact numbers: the mean over the
  three channels of the absolute difference between a colour and a pixel.
\<close>

definition mean_abs_diff :: "pixel \<Rightarrow> pixel \<Rightarrow> rat" where
  "mean_abs_diff c p =
     (of_int \<bar>fst c - fst p\<bar> + of_int \<bar>fst (snd c) - fst (snd p)\<bar>
      + of_int \<bar>snd (snd c) - snd (snd p)\<bar>) / 3"

text \<open>
  The index the matcher is meant to pick: it is in range, no colour of the palette is
  nearer to the pixel, and every colour before it is strictly farther.
\<close>

definition first_nearest :: "pixel list \<Rightarrow> pixel \<Rightarrow> nat \<Rightarrow> bool" where
  "first_nearest colours p i \<longleftrightarrow>
     i < length colours
     \<and> (\<forall>j<length colours. mean_abs_diff (colours ! i) p \<le> mean_abs_diff (colours ! j) p)
     \<and> (\<forall>j<i. mean_abs_diff (colours ! i) p < mean_abs_diff (colours ! j) p)"

text \<open>
  The numbers on which the int64 and float64 arithmetic of the matcher is exact
  enough: every channel is below \<open>2 ^ 50\<close> in absolute value. Every pixel of an RGB
  image (0 to 255) and every colour cast from the mean of a tile is.
\<close>

definition in_range :: "pixel \<Rightarrow> bool" where
  "in_range p \<longleftrightarrow> \<bar>fst p\<bar> < 2 ^ 50 \<and> \<bar>fst (snd p)\<bar> < 2 ^ 50 \<and> \<bar>snd (snd p)\<bar> < 2 ^ 50"

text \<open>
  What numpy answers on the few numbers and lines the examples use:
  \<^verbatim>\<open>str(numpy.float64(0.5))\<close> is \<^verbatim>\<open>0.5\<close>,
  \<^verbatim>\<open>numpy.fromstring("1 2", dtype=float, sep=" ")\<close> has two elements, and
  \<^verbatim>\<open>1e30 nan -inf\<close> parses to a number beyond int64, nan and an infinity.
\<close>

definition sample_numpy :: numpy where
  "sample_numpy =
     \<lparr>str_float = (\<lambda>q. if q = 0 then ''0.0'' else if q = 1 / 2 then ''0.5'' else ''255.0''),
      fromstring = (\<lambda>s. if s = ''0.0 0.0 0.0'' then [Finite 0, Finite 0, Finite 0]
                         else if s = ''0.5 0.5 0.5'' then [Finite (1 / 2), Finite (1 / 2), Finite (1 / 2)]
                         else if s = ''255.0 255.0 255.0'' then [Finite 255, Finite 255, Finite 255]
                         else if s = ''1 2'' then [Finite 1, Finite 2]
                         else if s = ''7'' then [Finite 7]
                         else if s = ''1e30 nan -inf'' then [Finite (10 ^ 30), NaN, NegInf]
                         else [])\<rparr>"

text \<open>A run that starts with an empty directory, no cache file and nothing printed.\<close>

definition empty_world :: world where
  "empty_world = \<lparr>mosaics = [], cache_file = None, stdout = [], opened = [], written = []\<rparr>"

text \<open>
  The entries the loop of \<open>get_mosaic_palette\<close> does not skip at once: regular
  files other than \<^verbatim>\<open>.gitkeep\<close>.
\<close>

definition eligible :: "entry \<Rightarrow> bool" where
  "eligible e \<longleftrightarrow> is_file e \<and> name e \<noteq> ''.gitkeep''"

text \<open>
  A tile the reconciliation gives up on: its hash is not in the loaded record and
  \<open>get_image\<close> returns \<^verbatim>\<open>None\<close> for it (it cannot be opened, or is not 48x48, or
  is not RGB).
\<close>

definition invalid_tile :: "string list \<Rightarrow> entry \<Rightarrow> bool" where
  "invalid_tile saved_values e \<longleftrightarrow>
     eligible e \<and>
     (case md5 e of
        None \<Rightarrow> False
      | Some h \<Rightarrow> h \<notin> set saved_values \<and> isl (get_image (path e) (opens e) False))"

text \<open>
  The lines one entry adds to \<open>cache\<close>, and the paths it hands to \<^verbatim>\<open>Image.open\<close>:
  the loop body read off for these two effects alone.
\<close>

definition entry_lines :: "numpy \<Rightarrow> string list \<Rightarrow> entry \<Rightarrow> string list" where
  "entry_lines np saved_values e =
     (if \<not> eligible e then []
      else case md5 e of
        None \<Rightarrow> []
      | Some h \<Rightarrow>
          if h \<notin> set saved_values then
            (case get_image (path e) (opens e) False of
               Inl m \<Rightarrow> []
             | Inr pixel_values \<Rightarrow> [h, colour_line np (average pixel_values)])
          else if index saved_values h + 1 < length saved_values
            then [h, saved_values ! (index saved_values h + 1)]
          else [h])"

definition entry_opened :: "string list \<Rightarrow> entry \<Rightarrow> string list" where
  "entry_opened saved_values e =
     (if \<not> eligible e then []
      else case md5 e of
        None \<Rightarrow> []
      | Some h \<Rightarrow> if h \<notin> set saved_values then [path e] else [])"

text \<open>
  Sample tiles and files for the examples: a black tile, a tile whose channels have
  the mean 1/2, a file that is not an image, and two digests.
\<close>

definition black_tile :: pil_image where
  "black_tile = \<lparr>img_size = (48, 48), mode = ''RGB'', getdata = replicate 2304 (0, 0, 0)\<rparr>"

definition grey_tile :: pil_image where
  "grey_tile = \<lparr>img_size = (48, 48), mode = ''RGB'',
                 getdata = replicate 1152 (0, 0, 0) @ replicate 1152 (1, 1, 1)\<rparr>"

definition tile_file :: "string \<Rightarrow> string \<Rightarrow> pil_image option \<Rightarrow> entry" where
  "tile_file n h img = \<lparr>name = n, is_file = True, md5 = Some h, opens = img, removable = True\<rparr>"

definition digest_a :: string where
  "digest_a = ''0123456789abcdef0123456789abcdef''"

definition digest_b :: string where
  "digest_b = ''fedcba9876543210fedcba9876543210''"

definition a_file :: entry where
  "a_file = tile_file ''a.png'' digest_a (Some black_tile)"

definition bad_file :: entry where
  "bad_file = tile_file ''bad.txt'' digest_b None"

definition cold_world :: world where
  "cold_world = empty_world\<lparr>mosaics := [a_file]\<rparr>"

definition warm_world :: world where
  "warm_world = cold_world\<lparr>cache_file := Some [digest_a, ''0.0 0.0 0.0'']\<rparr>"

text \<open>
  What makes \<open>load_used_images\<close> return \<^verbatim>\<open>None\<close>: a regular file whose hash cannot
  be read, or whose hash is in the mask and that \<^verbatim>\<open>Image.open\<close> refuses.
\<close>

definition unloadable :: "string list list \<Rightarrow> entry \<Rightarrow> bool" where
  "unloadable image_mask e \<longleftrightarrow>
     is_file e \<and>
     (case md5 e of
        None \<Rightarrow> True
      | Some h \<Rightarrow> h \<in> set (concat image_mask) \<and> opens e = None)"

text \<open>
  The hashes of the regular files of a listing.
\<close>

definition file_hashes :: "entry list \<Rightarrow> string set" where
  "file_hashes es = {h. \<exists>e\<in>set es. is_file e \<and> md5 e = Some h}"

text \<open>
  What the assignment stores in a row of the palette for an array of three numbers or
  of one: each number cast to int64, the single number filling the three cells.
\<close>

definition cast_row :: "float64 list \<Rightarrow> pixel" where
  "cast_row v =
     (if length v = 3 then (astype_int64 (v ! 0), astype_int64 (v ! 1), astype_int64 (v ! 2))
      else (astype_int64 (v ! 0), astype_int64 (v ! 0), astype_int64 (v ! 0)))"

text \<open>
  What \<^verbatim>\<open>hexdigest\<close> of an md5 returns: 32 characters, each a lower-case
  hexadecimal digit.
\<close>

definition is_digest :: "string \<Rightarrow> bool" where
  "is_digest s \<longleftrightarrow> length s = 32 \<and> (\<forall>c\<in>set s. c \<in> set ''0123456789abcdef'')"

text \<open>
  A record of the shape \<open>get_mosaic_palette\<close> writes: lines in pairs, and the second
  line of a pair is not a digest (a line of three numbers has spaces in it).
\<close>

fun wf_record :: "string list \<Rightarrow> bool" where
  "wf_record [] = True"
| "wf_record [x] = False"
| "wf_record (h # c # r) = (\<not> is_digest c \<and> wf_record r)"

text \<open>
  The entries that add a pair of lines to \<open>cache\<close>: regular files other than
  \<^verbatim>\<open>.gitkeep\<close> whose hash can be read and is in the loaded record, or that
  \<open>get_image\<close> accepts.
\<close>

definition usable :: "string list \<Rightarrow> entry \<Rightarrow> bool" where
  "usable saved_values e \<longleftrightarrow>
     eligible e \<and>
     (case md5 e of
        None \<Rightarrow> False
      | Some h \<Rightarrow> h \<in> set saved_values \<or> \<not> isl (get_image (path e) (opens e) False))"

text \<open>
  The mean colour of the tile of an entry that \<open>get_image\<close> accepts.
\<close>

definition tile_mean :: "entry \<Rightarrow> rat \<times> rat \<times> rat" where
  "tile_mean e =
     (case get_image (path e) (opens e) False of Inl m \<Rightarrow> (0, 0, 0) | Inr pixel_values \<Rightarrow> average pixel_values)"

text \<open>
  The second line of the pair an entry adds: the line that follows its hash in the
  loaded record, or the text of the mean colour of its tile.
\<close>

definition stored_colour :: "numpy \<Rightarrow> string list \<Rightarrow> entry \<Rightarrow> string" where
  "stored_colour np saved_values e =
     (case md5 e of
        None \<Rightarrow> []
      | Some h \<Rightarrow> if h \<in> set saved_values then saved_values ! (index saved_values h + 1)
                  else colour_line np (tile_mean e))"

text \<open>
  The list of lines of a list of pairs.
\<close>

primrec flat :: "(string \<times> string) list \<Rightarrow> string list" where
  "flat [] = []"
| "flat (p # ps) = fst p # snd p # flat ps"

text \<open>
  Two more sample files: a copy of \<open>a_file\<close> under another name (the same content,
  so the same digest), and a tile whose channels have the mean 1/2.
\<close>

definition a_copy :: entry where
  "a_copy = tile_file ''copy.png'' digest_a (Some black_tile)"

definition grey_file :: entry where
  "grey_file = tile_file ''grey.png'' digest_b (Some grey_tile)"

section \<open>Loops that may raise\<close>

lemma traverse_cong:
  "(\<And>x. x \<in> set xs \<Longrightarrow> f x = g x) \<Longrightarrow> traverse f xs = traverse g xs"
proof (induction xs)
  case Nil
  show ?case by simp
next
  case (Cons a xs)
  have "f a = g a" using Cons.prems by simp
  moreover have "traverse f xs = traverse g xs" using Cons by simp
  ultimately show ?case by (simp split: sum.splits)
qed

lemma traverse_Inr:
  "(\<And>x. x \<in> set xs \<Longrightarrow> f x = Inr (g x)) \<Longrightarrow> traverse f xs = Inr (map g xs)"
  by (induction xs) simp_all

lemma traverse_Inr_iff:
  "traverse f xs = Inr ys \<longleftrightarrow> length ys = length xs \<and> (\<forall>i<length xs. f (xs ! i) = Inr (ys ! i))"
proof (induction xs arbitrary: ys)
  case Nil
  then show ?case by auto
next
  case (Cons x xs)
  show ?case
  proof (cases ys)
    case Nil
    then show ?thesis by (auto split: sum.splits)
  next
    case (Cons y ys')
    have "(\<forall>i<Suc (length xs). f ((x # xs) ! i) = Inr ((y # ys') ! i))
          \<longleftrightarrow> f x = Inr y \<and> (\<forall>i<length xs. f (xs ! i) = Inr (ys' ! i))"
      by (auto simp: nth_Cons split: nat.splits)
    then show ?thesis
      using Cons.IH [of ys'] Cons by (auto split: sum.splits)
  qed
qed

lemma traverse_total:
  "(\<And>x. x \<in> set xs \<Longrightarrow> \<exists>y. f x = Inr y) \<Longrightarrow> \<exists>ys. traverse f xs = Inr ys"
proof (induction xs)
  case Nil
  show ?case by simp
next
  case (Cons a xs)
  obtain y where "f a = Inr y" using Cons.prems by auto
  moreover obtain ys where "traverse f xs = Inr ys" using Cons by auto
  ultimately show ?case by simp
qed

lemma palette_step_cache:
  "snd (palette_step np d sv e s) = snd s @ entry_lines np sv e"
  by (auto simp: palette_step_def entry_lines_def eligible_def get_image_hash_def Let_def
           split: option.splits sum.splits)

lemma palette_step_opened:
  "opened (fst (palette_step np d sv e s)) = opened (fst s) @ entry_opened sv e"
  by (auto simp: palette_step_def entry_opened_def eligible_def get_image_hash_def Let_def
                 py_print_def remove_def
           split: option.splits sum.splits)

lemma palette_step_frame:
  "cache_file (fst (palette_step np d sv e s)) = cache_file (fst s)"
  "written (fst (palette_step np d sv e s)) = written (fst s)"
  by (auto simp: palette_step_def get_image_hash_def Let_def py_print_def remove_def
           split: option.splits sum.splits)

lemma palette_step_mosaics:
  "mosaics (fst (palette_step np d sv e s)) =
     (if d \<and> removable e \<and> invalid_tile sv e
      then filter (\<lambda>x. x \<noteq> e) (mosaics (fst s)) else mosaics (fst s))"
  by (auto simp: palette_step_def invalid_tile_def eligible_def get_image_hash_def Let_def
                 py_print_def remove_def
           split: option.splits sum.splits)

lemma fold_palette_step_cache:
  "snd (fold (palette_step np d sv) es s) = snd s @ concat (map (entry_lines np sv) es)"
  by (induction es arbitrary: s) (simp_all add: palette_step_cache)

lemma fold_palette_step_opened:
  "opened (fst (fold (palette_step np d sv) es s)) = opened (fst s) @ concat (map (entry_opened sv) es)"
  by (induction es arbitrary: s) (simp_all add: palette_step_opened)

lemma fold_palette_step_frame:
  "cache_file (fst (fold (palette_step np d sv) es s)) = cache_file (fst s)"
  "written (fst (fold (palette_step np d sv) es s)) = written (fst s)"
  by (induction es arbitrary: s) (simp_all add: palette_step_frame)

lemma fold_palette_step_mosaics:
  "mosaics (fst (fold (palette_step np d sv) es s)) =
     filter (\<lambda>x. \<not> (x \<in> set es \<and> d \<and> removable x \<and> invalid_tile sv x)) (mosaics (fst s))"
proof (induction es arbitrary: s)
  case Nil
  show ?case by simp
next
  case (Cons e es)
  show ?case
    by (simp add: Cons palette_step_mosaics) (auto intro: filter_cong)
qed

lemma saved_lines_print [simp]: "saved_lines (py_print m w) = saved_lines w"
  by (simp add: saved_lines_def py_print_def)

lemma reconcile_cache:
  "snd (reconcile np d w) = concat (map (entry_lines np (saved_lines w)) (mosaics w))"
  by (simp add: reconcile_def fold_palette_step_cache)

lemma reconcile_print:
  "snd (reconcile np d (py_print m w)) = snd (reconcile np d w)"
  by (simp add: reconcile_cache) (simp add: py_print_def)

lemma concat_reshape: "concat (reshape w h xs) = take (w * h) xs"
proof (induction w)
  case 0
  show ?case by (simp add: reshape_def)
next
  case (Suc w)
  have "concat (reshape (Suc w) h xs) = concat (reshape w h xs) @ take h (drop (w * h) xs)"
    by (simp add: reshape_def)
  also have "\<dots> = take (w * h) xs @ take h (drop (w * h) xs)" by (simp add: Suc)
  also have "\<dots> = take (w * h + h) xs" by (simp add: take_add)
  finally show ?case by (simp add: add.commute)
qed

lemma get_image_black: "get_image p (Some black_tile) False = Inr (reshape 48 48 (replicate 2304 (0, 0, 0)))"
  by (simp add: get_image_def black_tile_def)

lemma get_image_grey:
  "get_image p (Some grey_tile) False = Inr (reshape 48 48 (replicate 1152 (0, 0, 0) @ replicate 1152 (1, 1, 1)))"
  by (simp add: get_image_def grey_tile_def)

lemma average_black: "average (reshape 48 48 (replicate 2304 (0, 0, 0))) = (0, 0, 0)"
  by (simp add: average_def concat_reshape mean_def sum_list_replicate)

lemma average_grey:
  "average (reshape 48 48 (replicate 1152 (0, 0, 0) @ replicate 1152 (1, 1, 1))) = (1 / 2, 1 / 2, 1 / 2)"
  by (simp add: average_def concat_reshape mean_def sum_list_replicate)

lemma reconcile_frame:
  "cache_file (fst (reconcile np d w)) = cache_file w"
  "written (fst (reconcile np d w)) = written w"
  by (simp_all add: reconcile_def fold_palette_step_frame)

lemma reconcile_mosaics:
  "mosaics (fst (reconcile np d w)) =
     filter (\<lambda>x. \<not> (d \<and> removable x \<and> invalid_tile (saved_lines w) x)) (mosaics w)"
  by (simp add: reconcile_def fold_palette_step_mosaics) (auto intro: filter_cong)

lemma py_print_fields [simp]:
  "mosaics (py_print m w) = mosaics w" "cache_file (py_print m w) = cache_file w"
  "written (py_print m w) = written w" "opened (py_print m w) = opened w"
  "stdout (py_print m w) = stdout w @ [m]"
  by (simp_all add: py_print_def)

text \<open>
  C6: \<open>get_mosaic_palette\<close> writes \<^verbatim>\<open>./cache\<close> exactly when the reconciled list of
  lines differs from the lines loaded at start, and then the file holds the reconciled
  list; when the two lists are equal nothing is written and the file is as it was.
\<close>

theorem get_mosaic_palette_writes_iff_changed:
  "(saved_lines w \<noteq> snd (reconcile np d w) \<longrightarrow>
      cache_file (fst (get_mosaic_palette np d w)) = Some (snd (reconcile np d w))
      \<and> written (fst (get_mosaic_palette np d w)) = written w @ [snd (reconcile np d w)])
   \<and> (saved_lines w = snd (reconcile np d w) \<longrightarrow>
      cache_file (fst (get_mosaic_palette np d w)) = cache_file w
      \<and> written (fst (get_mosaic_palette np d w)) = written w)"
  by (simp add: get_mosaic_palette_def Let_def reconcile_print reconcile_frame)

text \<open>
  C9: a tile that cannot be decoded or fails the size or mode check does not stop the
  reconciliation: the palette returned is the one the directory without that file
  gives, whatever comes before and after it. The files that leave the directory are
  exactly the invalid tiles that can be removed, and only when the delete flag is set;
  with the flag unset the directory is unchanged.
\<close>

theorem get_mosaic_palette_skips_invalid:
  "(invalid_tile (saved_lines w) e \<longrightarrow>
      snd (get_mosaic_palette np d (w\<lparr>mosaics := pre @ e # post\<rparr>))
        = snd (get_mosaic_palette np d (w\<lparr>mosaics := pre @ post\<rparr>)))
   \<and> mosaics (fst (get_mosaic_palette np d w))
        = filter (\<lambda>x. \<not> (d \<and> removable x \<and> invalid_tile (saved_lines w) x)) (mosaics w)
   \<and> (\<not> d \<longrightarrow> mosaics (fst (get_mosaic_palette np d w)) = mosaics w)"
proof -
  have lines: "entry_lines np (saved_lines w) e = []" if "invalid_tile (saved_lines w) e"
    using that by (auto simp: invalid_tile_def entry_lines_def split: option.splits sum.splits)
  have sl: "saved_lines (w\<lparr>mosaics := es\<rparr>) = saved_lines w" for es
    by (simp add: saved_lines_def)
  have A: "snd (get_mosaic_palette np d (w\<lparr>mosaics := pre @ e # post\<rparr>))
        = snd (get_mosaic_palette np d (w\<lparr>mosaics := pre @ post\<rparr>))"
    if "invalid_tile (saved_lines w) e"
    by (simp add: get_mosaic_palette_def Let_def reconcile_cache sl lines [OF that])
  have B: "mosaics (fst (get_mosaic_palette np d w))
        = filter (\<lambda>x. \<not> (d \<and> removable x \<and> invalid_tile (saved_lines w) x)) (mosaics w)"
    by (simp add: get_mosaic_palette_def Let_def reconcile_mosaics)
  have C: "mosaics (fst (get_mosaic_palette np d w)) = mosaics w" if "\<not> d"
    unfolding B using that by simp
  show ?thesis using A B C by blast
qed

lemma entry_lines_a_cold: "entry_lines sample_numpy [] a_file = [digest_a, ''0.0 0.0 0.0'']"
  by (simp add: entry_lines_def eligible_def a_file_def tile_file_def get_image_black
        average_black colour_line_def sample_numpy_def)

lemma entry_lines_a_warm:
  "entry_lines sample_numpy [digest_a, ''0.0 0.0 0.0''] a_file = [digest_a, ''0.0 0.0 0.0'']"
  by (simp add: entry_lines_def eligible_def a_file_def tile_file_def)

lemma invalid_bad: "invalid_tile [] bad_file"
  by (simp add: invalid_tile_def eligible_def bad_file_def tile_file_def get_image_def)

lemma not_invalid_a: "\<not> invalid_tile [] a_file"
  by (simp add: invalid_tile_def eligible_def a_file_def tile_file_def get_image_black)

lemma bad_neq_a: "bad_file \<noteq> a_file"
  by (simp add: bad_file_def a_file_def tile_file_def)

theorem get_mosaic_palette_writes_iff_changed_witness:
  "cache_file (fst (get_mosaic_palette sample_numpy False cold_world)) = Some [digest_a, ''0.0 0.0 0.0'']
   \<and> written (fst (get_mosaic_palette sample_numpy False cold_world)) = [[digest_a, ''0.0 0.0 0.0'']]
   \<and> cache_file (fst (get_mosaic_palette sample_numpy False warm_world)) = Some [digest_a, ''0.0 0.0 0.0'']
   \<and> written (fst (get_mosaic_palette sample_numpy False warm_world)) = []"
proof -
  have c: "snd (reconcile sample_numpy False cold_world) = [digest_a, ''0.0 0.0 0.0'']"
    by (simp add: reconcile_cache cold_world_def empty_world_def saved_lines_def entry_lines_a_cold)
  have h: "snd (reconcile sample_numpy False warm_world) = [digest_a, ''0.0 0.0 0.0'']"
    by (simp add: reconcile_cache warm_world_def cold_world_def empty_world_def saved_lines_def
          entry_lines_a_warm)
  show ?thesis
    using get_mosaic_palette_writes_iff_changed [of cold_world sample_numpy False]
      get_mosaic_palette_writes_iff_changed [of warm_world sample_numpy False]
    unfolding c h
    by (simp add: saved_lines_def warm_world_def cold_world_def empty_world_def)
qed

theorem get_mosaic_palette_skips_invalid_witness:
  "invalid_tile (saved_lines cold_world) bad_file
   \<and> snd (get_mosaic_palette sample_numpy True (cold_world\<lparr>mosaics := [bad_file, a_file]\<rparr>))
       = snd (get_mosaic_palette sample_numpy True (cold_world\<lparr>mosaics := [a_file]\<rparr>))
   \<and> mosaics (fst (get_mosaic_palette sample_numpy True (cold_world\<lparr>mosaics := [bad_file, a_file]\<rparr>)))
       = [a_file]
   \<and> mosaics (fst (get_mosaic_palette sample_numpy False (cold_world\<lparr>mosaics := [bad_file, a_file]\<rparr>)))
       = [bad_file, a_file]"
proof -
  have s: "saved_lines cold_world = []" "saved_lines (cold_world\<lparr>mosaics := [bad_file, a_file]\<rparr>) = []"
    by (simp_all add: saved_lines_def cold_world_def empty_world_def)
  have r: "removable bad_file" by (simp add: bad_file_def tile_file_def)
  show ?thesis
    using get_mosaic_palette_skips_invalid [of cold_world bad_file sample_numpy True "[]" "[a_file]"]
      get_mosaic_palette_skips_invalid [of "cold_world\<lparr>mosaics := [bad_file, a_file]\<rparr>" bad_file sample_numpy True "[]" "[]"]
      get_mosaic_palette_skips_invalid [of "cold_world\<lparr>mosaics := [bad_file, a_file]\<rparr>" bad_file sample_numpy False "[]" "[]"]
    by (simp add: s invalid_bad not_invalid_a r)
qed

lemma dom_upd_step:
  "D = dom (d(h \<mapsto> im)) \<union> (M \<inter> F) \<Longrightarrow> h \<in> M \<Longrightarrow> D = dom d \<union> (M \<inter> insert h F)"
proof -
  have a: "dom (d(h \<mapsto> im)) = insert h (dom d)" by simp
  show "D = dom (d(h \<mapsto> im)) \<union> (M \<inter> F) \<Longrightarrow> h \<in> M \<Longrightarrow> D = dom d \<union> (M \<inter> insert h F)"
    by (simp only: a) blast
qed

lemma load_loop_None_iff:
  "snd (load_loop image_mask es d w) = None \<longleftrightarrow> (\<exists>e\<in>set es. unloadable image_mask e)"
proof (induction es arbitrary: d w)
  case Nil
  show ?case by simp
next
  case (Cons e es)
  show ?case
    by (auto simp: Cons unloadable_def get_image_hash_def Let_def split: option.splits)
qed

lemma load_loop_dom:
  "snd (load_loop image_mask es d w) = Some d' \<Longrightarrow>
   dom d' = dom d \<union> (set (concat image_mask) \<inter> file_hashes es)"
proof (induction es arbitrary: d w)
  case Nil
  then show ?case by (simp add: file_hashes_def)
next
  case (Cons e es)
  have fh: "file_hashes (e # es) =
      (if is_file e then (case md5 e of None \<Rightarrow> {} | Some h \<Rightarrow> {h}) else {}) \<union> file_hashes es"
    by (auto simp: file_hashes_def split: option.splits)
  show ?case
  proof (cases "is_file e")
    case False
    then show ?thesis using Cons by (simp add: fh)
  next
    case True
    show ?thesis
    proof (cases "md5 e")
      case None
      then show ?thesis using Cons.prems True by (simp add: get_image_hash_def)
    next
      case (Some h)
      show ?thesis
      proof (cases "h \<in> set (concat image_mask)")
        case False
        then have "snd (load_loop image_mask es d w) = Some d'"
          using Cons.prems True Some by (simp add: get_image_hash_def)
        from Cons.IH [OF this] show ?thesis using True Some False by (auto simp: fh)
      next
        case hin: True
        show ?thesis
        proof (cases "opens e")
          case None
          then show ?thesis using Cons.prems True Some hin by (simp add: get_image_hash_def)
        next
          case (Some im)
          then have "snd (load_loop image_mask es (d(h \<mapsto> im)) (w\<lparr>opened := opened w @ [path e]\<rparr>)) = Some d'"
            using Cons.prems True \<open>md5 e = Some h\<close> hin by (simp add: get_image_hash_def Let_def)
          from Cons.IH [OF this]
          have "dom d' = dom d \<union> (set (concat image_mask) \<inter> insert h (file_hashes es))"
            using hin by (rule dom_upd_step)
          moreover have "file_hashes (e # es) = insert h (file_hashes es)"
            using True \<open>md5 e = Some h\<close> by (simp add: fh)
          ultimately show ?thesis by simp
        qed
      qed
    qed
  qed
qed

text \<open>
  C2, amended: \<open>load_used_images\<close> returns \<^verbatim>\<open>None\<close> exactly when the directory holds
  a regular file whose hash cannot be read, or a regular file whose hash is in the
  mask and that cannot be opened. A digest of the mask that no file has causes no
  failure.
\<close>

theorem load_used_images_fails_iff:
  "snd (load_used_images image_mask w) = None \<longleftrightarrow> (\<exists>e\<in>set (mosaics w). unloadable image_mask e)"
  by (simp add: load_used_images_def load_loop_None_iff)

text \<open>
  C2, as the code has it: the mask refers to a digest that no file of the (empty)
  directory has, and \<open>load_used_images\<close> still succeeds, with an empty dictionary.
\<close>

theorem load_used_images_missing_tile:
  "snd (load_used_images [[digest_a]] empty_world) = Some Map.empty"
  by (simp add: load_used_images_def empty_world_def)

text \<open>
  C8, amended: when \<open>load_used_images\<close> succeeds, the keys of the dictionary are the
  digests of the mask that some regular file of the directory has. So no tile outside
  the mask is loaded, every digest is a key once however many cells hold it, and the
  keys are exactly the digests of the mask when each of them is the hash of a regular
  file of the directory.
\<close>

theorem load_used_images_keys:
  assumes "snd (load_used_images image_mask w) = Some loaded"
  shows "dom loaded = set (concat image_mask) \<inter> file_hashes (mosaics w)
         \<and> dom loaded \<subseteq> set (concat image_mask)
         \<and> (set (concat image_mask) \<subseteq> file_hashes (mosaics w) \<longrightarrow>
              dom loaded = set (concat image_mask))"
proof -
  have "dom loaded = set (concat image_mask) \<inter> file_hashes (mosaics w)"
    using load_loop_dom [of image_mask "mosaics w" Map.empty "py_print Loading_used w" loaded] assms
    by (simp add: load_used_images_def)
  then show ?thesis by auto
qed

text \<open>
  C8, as the code has it: the mask refers to two digests, the directory holds a file
  for one of them only, and the dictionary returned has one key, not two.
\<close>

theorem load_used_images_fewer_keys:
  "\<exists>loaded. snd (load_used_images [[digest_a, digest_b]] cold_world) = Some loaded
     \<and> dom loaded \<noteq> set (concat [[digest_a, digest_b]])"
  by (simp add: load_used_images_def cold_world_def empty_world_def a_file_def tile_file_def
        get_image_hash_def digest_a_def digest_b_def)

theorem load_used_images_fails_iff_witness:
  "unloadable [[digest_b]] bad_file
   \<and> snd (load_used_images [[digest_b]] (empty_world\<lparr>mosaics := [bad_file]\<rparr>)) = None
   \<and> snd (load_used_images [[digest_b]] cold_world) \<noteq> None"
proof -
  have u: "unloadable [[digest_b]] bad_file"
    by (simp add: unloadable_def bad_file_def tile_file_def)
  have n: "\<not> unloadable [[digest_b]] a_file"
    by (simp add: unloadable_def a_file_def tile_file_def digest_a_def digest_b_def)
  show ?thesis
    using load_used_images_fails_iff [of "[[digest_b]]" "empty_world\<lparr>mosaics := [bad_file]\<rparr>"]
      load_used_images_fails_iff [of "[[digest_b]]" cold_world] u n
    by (simp add: cold_world_def)
qed

theorem load_used_images_keys_witness:
  "\<exists>loaded. snd (load_used_images [[digest_a, digest_a]] cold_world) = Some loaded
      \<and> dom loaded = {digest_a}"
proof -
  have h: "snd (load_used_images [[digest_a, digest_a]] cold_world) = Some [digest_a \<mapsto> black_tile]"
    by (simp add: load_used_images_def cold_world_def empty_world_def a_file_def tile_file_def
          get_image_hash_def)
  have f: "file_hashes (mosaics cold_world) = {digest_a}"
    by (auto simp: file_hashes_def cold_world_def empty_world_def a_file_def tile_file_def)
  show ?thesis
    using load_used_images_keys [OF h] h by (simp add: f)
qed

lemma palette_step_no_mask_message:
  "Retrieving_mask \<in> set (stdout (fst (palette_step np d sv e s)))
     \<longleftrightarrow> Retrieving_mask \<in> set (stdout (fst s))"
  by (auto simp: palette_step_def get_image_def get_image_hash_def Let_def py_print_def remove_def
           split: option.splits sum.splits if_splits)

lemma fold_palette_step_no_mask_message:
  "Retrieving_mask \<in> set (stdout (fst (fold (palette_step np d sv) es s)))
     \<longleftrightarrow> Retrieving_mask \<in> set (stdout (fst s))"
  by (induction es arbitrary: s) (simp_all add: palette_step_no_mask_message)

lemma get_mosaic_palette_no_mask_message:
  "Retrieving_mask \<in> set (stdout (fst (get_mosaic_palette np d w)))
     \<longleftrightarrow> Retrieving_mask \<in> set (stdout w)"
  by (simp add: get_mosaic_palette_def Let_def reconcile_def fold_palette_step_no_mask_message)

lemma entry_lines_unusable:
  "\<not> eligible e \<or> md5 e = None \<or> invalid_tile sv e \<Longrightarrow> entry_lines np sv e = []"
  by (auto simp: entry_lines_def invalid_tile_def split: option.splits sum.splits)

lemma parse_mosaic_palette_Nil: "parse_mosaic_palette np [] = Inr ([], [])"
  by (simp add: parse_mosaic_palette_def)

lemma get_mosaic_palette_result:
  "snd (get_mosaic_palette np d w) =
     parse_mosaic_palette np (concat (map (entry_lines np (saved_lines w)) (mosaics w)))"
  by (simp add: get_mosaic_palette_def Let_def reconcile_cache)

text \<open>
  C7: with a source image that \<open>get_image\<close> accepts, a directory in which every entry
  is skipped (not a regular file, the placeholder, unreadable, or an invalid tile)
  gives the empty palette; and whenever the palette returned has no entry, \<open>main\<close>
  prints its message, ends with \<^verbatim>\<open>quit(1)\<close> and never starts \<open>get_image_mask\<close>:
  the line that function prints first is not on the standard output.
\<close>

theorem main_empty_palette:
  assumes "get_image image_path source True = Inr pixel_values"
  shows "((\<forall>e\<in>set (mosaics w). \<not> eligible e \<or> md5 e = None \<or> invalid_tile (saved_lines w) e) \<longrightarrow>
            snd (get_mosaic_palette np delete (w\<lparr>opened := opened w @ [image_path]\<rparr>)) = Inr ([], []))
         \<and> (\<forall>mosaic_palette.
               snd (get_mosaic_palette np delete (w\<lparr>opened := opened w @ [image_path]\<rparr>)) = Inr mosaic_palette
               \<and> length (fst mosaic_palette) = 0 \<longrightarrow>
                 snd (main np image_path source delete w) = Quit 1 None
                 \<and> stdout (fst (main np image_path source delete w))
                     = stdout (fst (get_mosaic_palette np delete (w\<lparr>opened := opened w @ [image_path]\<rparr>)))
                       @ [Supply_more_mosaics]
                 \<and> (Retrieving_mask \<notin> set (stdout w) \<longrightarrow>
                      Retrieving_mask \<notin> set (stdout (fst (main np image_path source delete w)))))"
proof -
  let ?w = "w\<lparr>opened := opened w @ [image_path]\<rparr>"
  have sl: "saved_lines ?w = saved_lines w" by (simp add: saved_lines_def)
  have A: "snd (get_mosaic_palette np delete ?w) = Inr ([], [])"
    if "\<forall>e\<in>set (mosaics w). \<not> eligible e \<or> md5 e = None \<or> invalid_tile (saved_lines w) e"
  proof -
    have c: "concat (map (entry_lines np (saved_lines w)) (mosaics w)) = []"
      using that by (simp add: entry_lines_unusable)
    have "snd (get_mosaic_palette np delete ?w)
          = parse_mosaic_palette np (concat (map (entry_lines np (saved_lines w)) (mosaics w)))"
      by (simp add: get_mosaic_palette_result sl)
    then show ?thesis by (simp only: c parse_mosaic_palette_Nil)
  qed
  have B: "snd (main np image_path source delete w) = Quit 1 None
           \<and> stdout (fst (main np image_path source delete w))
               = stdout (fst (get_mosaic_palette np delete ?w)) @ [Supply_more_mosaics]
           \<and> (Retrieving_mask \<notin> set (stdout w) \<longrightarrow>
                Retrieving_mask \<notin> set (stdout (fst (main np image_path source delete w))))"
    if "snd (get_mosaic_palette np delete ?w) = Inr mosaic_palette" "length (fst mosaic_palette) = 0"
    for mosaic_palette
  proof -
    have m: "main np image_path source delete w
             = (py_print Supply_more_mosaics (fst (get_mosaic_palette np delete ?w)), Quit 1 None)"
      using assms that by (simp add: main_def Let_def)
    have "Retrieving_mask \<in> set (stdout (fst (get_mosaic_palette np delete ?w)))
            \<longleftrightarrow> Retrieving_mask \<in> set (stdout w)"
      by (simp add: get_mosaic_palette_no_mask_message)
    then show ?thesis by (simp add: m)
  qed
  show ?thesis using A B by blast
qed

theorem main_empty_palette_witness:
  "snd (main sample_numpy ''src.png'' (Some black_tile) False (empty_world\<lparr>mosaics := [bad_file]\<rparr>))
     = Quit 1 None
   \<and> Retrieving_mask \<notin> set (stdout (fst (main sample_numpy ''src.png'' (Some black_tile) False
                                          (empty_world\<lparr>mosaics := [bad_file]\<rparr>))))"
proof -
  have src: "get_image ''src.png'' (Some black_tile) True
             = Inr (reshape 48 48 (replicate 2304 (0, 0, 0)))"
    by (simp add: get_image_def black_tile_def)
  have s: "saved_lines (empty_world\<lparr>mosaics := [bad_file]\<rparr>) = []"
    by (simp add: saved_lines_def empty_world_def)
  have none: "\<forall>e\<in>set (mosaics (empty_world\<lparr>mosaics := [bad_file]\<rparr>)).
                \<not> eligible e \<or> md5 e = None
                \<or> invalid_tile (saved_lines (empty_world\<lparr>mosaics := [bad_file]\<rparr>)) e"
    by (simp add: s invalid_bad)
  have out: "stdout (empty_world\<lparr>mosaics := [bad_file]\<rparr>) = []"
    by (simp add: empty_world_def)
  note T = main_empty_palette [OF src, of "empty_world\<lparr>mosaics := [bad_file]\<rparr>" sample_numpy False]
  have p: "snd (get_mosaic_palette sample_numpy False
             (empty_world\<lparr>mosaics := [bad_file]\<rparr>
                \<lparr>opened := opened (empty_world\<lparr>mosaics := [bad_file]\<rparr>) @ [''src.png'']\<rparr>))
           = Inr ([], [])"
    using T [THEN conjunct1] none by blast
  have l: "length (fst (([], []) :: string list \<times> pixel list)) = 0" by simp
  have q: "Retrieving_mask \<notin> set (stdout (empty_world\<lparr>mosaics := [bad_file]\<rparr>))"
    by (simp add: out)
  show ?thesis
    using T [THEN conjunct2, THEN spec, of "([], [])"] p l q by blast
qed

section \<open>The arithmetic of int64 and float64\<close>

lemma int64_id:
  assumes "- (2 ^ 63) \<le> x" "x < 2 ^ 63"
  shows "int64 x = x"
proof -
  have "0 \<le> x + 2 ^ 63" using assms(1) by linarith
  moreover have "x + 2 ^ 63 < 2 ^ 64" using assms(2) by simp
  ultimately have "(x + 2 ^ 63) mod 2 ^ 64 = x + 2 ^ 63" by (rule mod_pos_pos_trivial)
  then show ?thesis unfolding int64_def by linarith
qed

lemma round_half_even_of_int: "round_half_even (of_int n) = n"
  by (simp add: round_half_even_def)

lemma round_half_even_error: "\<bar>of_int (round_half_even q) - q\<bar> \<le> 1 / 2"
proof -
  have a: "of_int \<lfloor>q\<rfloor> \<le> q" and b: "q < of_int \<lfloor>q\<rfloor> + 1" by linarith+
  show ?thesis
  proof (cases "q - of_int \<lfloor>q\<rfloor> < 1 / 2")
    case True
    then have "round_half_even q = \<lfloor>q\<rfloor>" by (simp add: round_half_even_def)
    then show ?thesis using a True by linarith
  next
    case False
    show ?thesis
    proof (cases "1 / 2 < q - of_int \<lfloor>q\<rfloor>")
      case True
      then have "round_half_even q = \<lfloor>q\<rfloor> + 1" using False by (simp add: round_half_even_def)
      then show ?thesis using b True by simp
    next
      case F2: False
      then have h: "q - of_int \<lfloor>q\<rfloor> = 1 / 2" using False by linarith
      have "round_half_even q = \<lfloor>q\<rfloor> \<or> round_half_even q = \<lfloor>q\<rfloor> + 1"
        by (simp add: round_half_even_def Let_def)
      then show ?thesis using h by auto
    qed
  qed
qed

lemma round_half_even_nonpos:
  assumes "q \<le> 0"
  shows "round_half_even q \<le> 0"
proof (cases "q = of_int \<lfloor>q\<rfloor>")
  case True
  have "\<lfloor>q\<rfloor> \<le> 0" using assms by simp
  moreover have "round_half_even q = \<lfloor>q\<rfloor>" using True by (simp add: round_half_even_def)
  ultimately show ?thesis by simp
next
  case False
  have "of_int \<lfloor>q\<rfloor> \<le> q" by linarith
  then have "of_int \<lfloor>q\<rfloor> < q" using False by linarith
  then have "(of_int \<lfloor>q\<rfloor> :: rat) < 0" using assms by linarith
  then have "\<lfloor>q\<rfloor> < 0" by simp
  then have "\<lfloor>q\<rfloor> + 1 \<le> 0" by linarith
  moreover have "round_half_even q = \<lfloor>q\<rfloor> \<or> round_half_even q = \<lfloor>q\<rfloor> + 1"
    by (simp add: round_half_even_def Let_def)
  ultimately show ?thesis by linarith
qed

lemma binade_le:
  assumes "q \<noteq> 0" "\<bar>q\<bar> < 2 ^ k" "1 \<le> k"
  shows "binade q \<le> int k - 1"
proof (cases "1 \<le> \<bar>q\<bar>")
  case True
  have "\<lfloor>\<bar>q\<bar>\<rfloor> < 2 ^ k"
    using assms(2) by (simp add: floor_less_iff)
  then have "bitlen \<lfloor>\<bar>q\<bar>\<rfloor> \<le> int k"
    by (simp add: bitlen_le_iff_power)
  then show ?thesis using True by (simp add: binade_def)
next
  case False
  have "0 \<le> bitlen (\<lceil>1 / \<bar>q\<bar>\<rceil> - 1)" by (rule bitlen_nonneg)
  then show ?thesis using False assms(3) by (simp add: binade_def)
qed

lemma round_float64_of_int:
  assumes "\<bar>n\<bar> < 2 ^ 53"
  shows "round_float64 (of_int n) = of_int n"
proof (cases "n = 0")
  case True
  then show ?thesis by (simp add: round_float64_def)
next
  case False
  have "\<bar>of_int n :: rat\<bar> = of_int \<bar>n\<bar>" by simp
  also have "\<dots> < 2 ^ 53" using assms by (simp only: of_int_less_numeral_power_cancel_iff)
  finally have "\<bar>of_int n :: rat\<bar> < 2 ^ 53" .
  then have b: "binade (of_int n) \<le> 52"
    using binade_le [of "of_int n" 53] False by simp
  have z: "(of_int n :: rat) \<noteq> 0" using False by simp
  show ?thesis
  proof (cases "0 \<le> binade (of_int n) - 52")
    case True
    then have e: "binade (of_int n) - 52 = 0" using b by simp
    show ?thesis unfolding round_float64_def Let_def e using z
      by (simp add: round_half_even_of_int)
  next
    case neg: False
    define m where "m = nat (- (binade (of_int n) - 52))"
    have "(of_int n :: rat) * 2 ^ m = of_int (n * 2 ^ m)" by simp
    then have "round_half_even (of_int n * 2 ^ m) = n * 2 ^ m"
      by (simp only: round_half_even_of_int)
    moreover have "round_float64 (of_int n) = of_int (round_half_even (of_int n * 2 ^ m)) / 2 ^ m"
      unfolding round_float64_def Let_def m_def using z neg by simp
    ultimately show ?thesis by simp
  qed
qed

lemma round_float64_error:
  assumes "0 \<le> q" "q < 2 ^ k" "1 \<le> k" "k \<le> 52"
  shows "\<bar>round_float64 q - q\<bar> \<le> 1 / 2 ^ (54 - k)"
proof (cases "q = 0")
  case True
  then show ?thesis by (simp add: round_float64_def)
next
  case False
  have "binade q \<le> int k - 1" using binade_le [of q k] assms False by simp
  then have e: "binade q - 52 \<le> int k - 53" by simp
  define m where "m = nat (- (binade q - 52))"
  have m: "53 - k \<le> m" using e assms(4) by (simp add: m_def)
  have neg: "\<not> 0 \<le> binade q - 52" using e assms(4) by simp
  have r: "round_float64 q = of_int (round_half_even (q * 2 ^ m)) / 2 ^ m"
    unfolding round_float64_def Let_def m_def using False neg by simp
  have "\<bar>of_int (round_half_even (q * 2 ^ m)) - q * 2 ^ m\<bar> \<le> 1 / 2"
    by (rule round_half_even_error)
  then have "\<bar>of_int (round_half_even (q * 2 ^ m)) - q * 2 ^ m\<bar> / 2 ^ m \<le> (1 / 2) / 2 ^ m"
    by (rule divide_right_mono) simp
  moreover have "\<bar>of_int (round_half_even (q * 2 ^ m)) - q * 2 ^ m\<bar> / 2 ^ m
                 = \<bar>of_int (round_half_even (q * 2 ^ m)) / 2 ^ m - q\<bar>"
  proof -
    have "of_int (round_half_even (q * 2 ^ m)) / 2 ^ m - q
          = (of_int (round_half_even (q * 2 ^ m)) - q * 2 ^ m) / 2 ^ m"
      by (simp add: diff_divide_distrib)
    then show ?thesis by simp
  qed
  moreover have "(1 / 2) / 2 ^ m \<le> (1 :: rat) / 2 ^ (54 - k)"
  proof -
    have "54 - k \<le> Suc m" using m assms(4) by simp
    then have "(2 :: rat) ^ (54 - k) \<le> 2 ^ Suc m" by (simp only: power_increasing one_le_numeral)
    then have "(1 :: rat) / 2 ^ Suc m \<le> 1 / 2 ^ (54 - k)"
      by (intro frac_le) simp_all
    then show ?thesis by simp
  qed
  ultimately show ?thesis using r by simp
qed

lemma round_float64_nonpos:
  assumes "q \<le> 0"
  shows "round_float64 q \<le> 0"
proof (cases "q = 0")
  case True
  then show ?thesis by (simp add: round_float64_def)
next
  case False
  have a: "round_half_even (q / 2 ^ n) \<le> 0" for n
    using assms by (intro round_half_even_nonpos) (simp add: divide_nonpos_pos)
  have b: "round_half_even (q * 2 ^ n) \<le> 0" for n
    using assms by (intro round_half_even_nonpos) (simp add: mult_nonpos_nonneg)
  have a': "(of_int (round_half_even (q / 2 ^ n)) :: rat) * 2 ^ n \<le> 0" for n
    using a [of n] by (simp add: mult_nonpos_nonneg)
  have b': "(of_int (round_half_even (q * 2 ^ n)) :: rat) / 2 ^ n \<le> 0" for n
    using b [of n] by (simp add: divide_nonpos_pos)
  show ?thesis
    unfolding round_float64_def Let_def using False a' b' by simp
qed

lemma abs_diff_int64:
  assumes "\<bar>a\<bar> < 2 ^ 50" "\<bar>b\<bar> < 2 ^ 50"
  shows "int64 \<bar>int64 (a - b)\<bar> = \<bar>a - b\<bar>" and "\<bar>a - b\<bar> < 2 ^ 51"
proof -
  show l: "\<bar>a - b\<bar> < 2 ^ 51" using assms by simp
  then have "int64 (a - b) = a - b" by (intro int64_id) simp_all
  moreover have "int64 \<bar>a - b\<bar> = \<bar>a - b\<bar>" using l by (intro int64_id) simp_all
  ultimately show "int64 \<bar>int64 (a - b)\<bar> = \<bar>a - b\<bar>" by simp
qed

lemma float64_sum_exact:
  assumes "0 \<le> x" "x < 2 ^ 51" "0 \<le> y" "y < 2 ^ 51" "0 \<le> z" "z < 2 ^ 51"
  shows "round_float64 (round_float64 (round_float64 (of_int x) + round_float64 (of_int y))
                        + round_float64 (of_int z)) = of_int (x + y + z)"
proof -
  have x: "round_float64 (of_int x) = of_int x" using assms by (intro round_float64_of_int) simp
  have y: "round_float64 (of_int y) = of_int y" using assms by (intro round_float64_of_int) simp
  have z: "round_float64 (of_int z) = of_int z" using assms by (intro round_float64_of_int) simp
  have xy: "round_float64 (of_int (x + y)) = of_int (x + y)"
    using assms by (intro round_float64_of_int) simp
  have xyz: "round_float64 (of_int (x + y + z)) = of_int (x + y + z)"
    using assms by (intro round_float64_of_int) simp
  have "round_float64 (of_int x) + round_float64 (of_int y) = (of_int (x + y) :: rat)"
    by (simp add: x y)
  then have "round_float64 (round_float64 (of_int x) + round_float64 (of_int y)) = of_int (x + y)"
    by (simp only: xy)
  then have "round_float64 (round_float64 (of_int x) + round_float64 (of_int y))
             + round_float64 (of_int z) = (of_int (x + y + z) :: rat)"
    by (simp add: z)
  then show ?thesis by (simp only: xyz)
qed

lemma distance_in_range:
  assumes "in_range c" "in_range p"
  shows "distance c p = round_float64 (mean_abs_diff c p)"
proof -
  have c: "\<bar>fst c\<bar> < 2 ^ 50" "\<bar>fst (snd c)\<bar> < 2 ^ 50" "\<bar>snd (snd c)\<bar> < 2 ^ 50"
    using assms(1) by (simp_all add: in_range_def)
  have p: "\<bar>fst p\<bar> < 2 ^ 50" "\<bar>fst (snd p)\<bar> < 2 ^ 50" "\<bar>snd (snd p)\<bar> < 2 ^ 50"
    using assms(2) by (simp_all add: in_range_def)
  note d0 = abs_diff_int64 [OF c(1) p(1)]
  note d1 = abs_diff_int64 [OF c(2) p(2)]
  note d2 = abs_diff_int64 [OF c(3) p(3)]
  have "round_float64 (round_float64 (round_float64 (of_int \<bar>fst c - fst p\<bar>)
                                       + round_float64 (of_int \<bar>fst (snd c) - fst (snd p)\<bar>))
                        + round_float64 (of_int \<bar>snd (snd c) - snd (snd p)\<bar>))
        = of_int (\<bar>fst c - fst p\<bar> + \<bar>fst (snd c) - fst (snd p)\<bar> + \<bar>snd (snd c) - snd (snd p)\<bar>)"
    using d0(2) d1(2) d2(2) by (intro float64_sum_exact) simp_all
  then show ?thesis
    unfolding distance_def Let_def d0(1) d1(1) d2(1) mean_abs_diff_def by simp
qed

lemma mean_abs_diff_bounds:
  assumes "in_range c" "in_range p"
  shows "0 \<le> mean_abs_diff c p" and "mean_abs_diff c p < 2 ^ 51"
proof -
  have c: "\<bar>fst c\<bar> < 2 ^ 50" "\<bar>fst (snd c)\<bar> < 2 ^ 50" "\<bar>snd (snd c)\<bar> < 2 ^ 50"
    using assms(1) by (simp_all add: in_range_def)
  have p: "\<bar>fst p\<bar> < 2 ^ 50" "\<bar>fst (snd p)\<bar> < 2 ^ 50" "\<bar>snd (snd p)\<bar> < 2 ^ 50"
    using assms(2) by (simp_all add: in_range_def)
  define s where "s = \<bar>fst c - fst p\<bar> + \<bar>fst (snd c) - fst (snd p)\<bar> + \<bar>snd (snd c) - snd (snd p)\<bar>"
  have m: "mean_abs_diff c p = of_int s / 3" by (simp add: mean_abs_diff_def s_def)
  have "0 \<le> s" by (simp add: s_def)
  then show "0 \<le> mean_abs_diff c p" by (simp add: m)
  have "s < 3 * 2 ^ 51"
    using abs_diff_int64(2) [OF c(1) p(1)] abs_diff_int64(2) [OF c(2) p(2)]
      abs_diff_int64(2) [OF c(3) p(3)] by (simp add: s_def)
  then have "(of_int s :: rat) < of_int (3 * 2 ^ 51)" by (simp only: of_int_less_iff)
  then show "mean_abs_diff c p < 2 ^ 51" by (simp add: m)
qed

lemma mean_abs_diff_step:
  assumes "mean_abs_diff c p < mean_abs_diff c' p"
  shows "mean_abs_diff c p + 1 / 3 \<le> mean_abs_diff c' p"
proof -
  define s where "s = \<bar>fst c - fst p\<bar> + \<bar>fst (snd c) - fst (snd p)\<bar> + \<bar>snd (snd c) - snd (snd p)\<bar>"
  define t where "t = \<bar>fst c' - fst p\<bar> + \<bar>fst (snd c') - fst (snd p)\<bar> + \<bar>snd (snd c') - snd (snd p)\<bar>"
  have m: "mean_abs_diff c p = of_int s / 3" "mean_abs_diff c' p = of_int t / 3"
    by (simp_all add: mean_abs_diff_def s_def t_def)
  have "(of_int s :: rat) < of_int t" using assms by (simp add: m)
  then have "s < t" by (simp only: of_int_less_iff)
  then have "s + 1 \<le> t" by simp
  then have "(of_int (s + 1) :: rat) \<le> of_int t" by (simp only: of_int_le_iff)
  then show ?thesis by (simp add: m)
qed

lemma round_float64_less:
  assumes "0 \<le> a" "a + 1 / 3 \<le> b" "b < 2 ^ 51"
  shows "round_float64 a < round_float64 b"
proof -
  have "\<bar>round_float64 a - a\<bar> \<le> 1 / 2 ^ (54 - 51)"
    using assms by (intro round_float64_error) simp_all
  then have "\<bar>round_float64 a - a\<bar> \<le> 1 / 8" by simp
  then have a: "round_float64 a \<le> a + 1 / 8" by (simp only: abs_le_iff) linarith
  have "\<bar>round_float64 b - b\<bar> \<le> 1 / 2 ^ (54 - 51)"
    using assms by (intro round_float64_error) simp_all
  then have "\<bar>round_float64 b - b\<bar> \<le> 1 / 8" by simp
  then have b: "b - 1 / 8 \<le> round_float64 b" by (simp only: abs_le_iff) linarith
  show ?thesis using a b assms(2) by linarith
qed

lemma distance_less_iff:
  assumes "in_range c" "in_range c'" "in_range p"
  shows "distance c p < distance c' p \<longleftrightarrow> mean_abs_diff c p < mean_abs_diff c' p"
proof -
  have lt: "distance x p < distance y p"
    if "mean_abs_diff x p < mean_abs_diff y p" "in_range x" "in_range y" for x y
  proof -
    have "round_float64 (mean_abs_diff x p) < round_float64 (mean_abs_diff y p)"
      using mean_abs_diff_step [OF that(1)] mean_abs_diff_bounds [OF that(2) assms(3)]
        mean_abs_diff_bounds [OF that(3) assms(3)]
      by (intro round_float64_less)
    then show ?thesis by (simp add: distance_in_range that assms(3))
  qed
  show ?thesis
  proof
    assume d: "distance c p < distance c' p"
    show "mean_abs_diff c p < mean_abs_diff c' p"
    proof (rule ccontr)
      assume "\<not> mean_abs_diff c p < mean_abs_diff c' p"
      then consider "mean_abs_diff c' p < mean_abs_diff c p" | "mean_abs_diff c' p = mean_abs_diff c p"
        by linarith
      then show False
      proof cases
        case 1
        then have "distance c' p < distance c p" using assms by (intro lt)
        then show False using d by simp
      next
        case 2
        then have "distance c' p = distance c p" by (simp add: distance_in_range assms)
        then show False using d by simp
      qed
    qed
  next
    assume "mean_abs_diff c p < mean_abs_diff c' p"
    then show "distance c p < distance c' p" using assms by (intro lt)
  qed
qed

lemma distance_le_iff:
  assumes "in_range c" "in_range c'" "in_range p"
  shows "distance c p \<le> distance c' p \<longleftrightarrow> mean_abs_diff c p \<le> mean_abs_diff c' p"
  using distance_less_iff [OF assms(2) assms(1) assms(3)] by (simp add: not_less [symmetric])

section \<open>get_image_mask picks the first nearest colour\<close>

lemma argmin_loop_first_min:
  assumes "length pre = i" "best < i" "pre ! best = v"
    and "\<forall>j<i. v \<le> pre ! j" "\<forall>j<best. v < pre ! j"
  shows "argmin_loop xs i best v < length (pre @ xs)
       \<and> (\<forall>j<length (pre @ xs). (pre @ xs) ! argmin_loop xs i best v \<le> (pre @ xs) ! j)
       \<and> (\<forall>j<argmin_loop xs i best v. (pre @ xs) ! argmin_loop xs i best v < (pre @ xs) ! j)"
  using assms
proof (induction xs arbitrary: pre i best v)
  case Nil
  then show ?case by simp
next
  case (Cons x xs)
  show ?case
  proof (cases "x < v")
    case True
    have "argmin_loop xs (Suc i) i x < length ((pre @ [x]) @ xs)
       \<and> (\<forall>j<length ((pre @ [x]) @ xs). ((pre @ [x]) @ xs) ! argmin_loop xs (Suc i) i x \<le> ((pre @ [x]) @ xs) ! j)
       \<and> (\<forall>j<argmin_loop xs (Suc i) i x. ((pre @ [x]) @ xs) ! argmin_loop xs (Suc i) i x < ((pre @ [x]) @ xs) ! j)"
    proof (rule Cons.IH)
      show "length (pre @ [x]) = Suc i" using Cons.prems by simp
      show "i < Suc i" by simp
      show "(pre @ [x]) ! i = x" using Cons.prems by (simp add: nth_append)
      show "\<forall>j<Suc i. x \<le> (pre @ [x]) ! j"
      proof (intro allI impI)
        fix j assume j: "j < Suc i"
        show "x \<le> (pre @ [x]) ! j"
        proof (cases "j < i")
          case True
          have "v \<le> pre ! j" using True Cons.prems(4) by blast
          then have "x \<le> pre ! j" using \<open>x < v\<close> by linarith
          then show ?thesis using True Cons.prems(1) by (simp add: nth_append)
        next
          case False
          then have "j = i" using j by simp
          then show ?thesis using Cons.prems by (simp add: nth_append)
        qed
      qed
      show "\<forall>j<i. x < (pre @ [x]) ! j"
        using Cons.prems True by (auto simp: nth_append)
    qed
    then show ?thesis using True by simp
  next
    case False
    have "argmin_loop xs (Suc i) best v < length ((pre @ [x]) @ xs)
       \<and> (\<forall>j<length ((pre @ [x]) @ xs). ((pre @ [x]) @ xs) ! argmin_loop xs (Suc i) best v \<le> ((pre @ [x]) @ xs) ! j)
       \<and> (\<forall>j<argmin_loop xs (Suc i) best v. ((pre @ [x]) @ xs) ! argmin_loop xs (Suc i) best v < ((pre @ [x]) @ xs) ! j)"
    proof (rule Cons.IH)
      show "length (pre @ [x]) = Suc i" using Cons.prems by simp
      show "best < Suc i" using Cons.prems by simp
      show "(pre @ [x]) ! best = v" using Cons.prems by (simp add: nth_append)
      show "\<forall>j<Suc i. v \<le> (pre @ [x]) ! j"
        using Cons.prems False by (auto simp: nth_append less_Suc_eq)
      show "\<forall>j<best. v < (pre @ [x]) ! j"
        using Cons.prems by (auto simp: nth_append)
    qed
    then show ?thesis using False by simp
  qed
qed

lemma argmin_first_min:
  assumes "ds \<noteq> []"
  shows "\<exists>k. argmin ds = Inr k \<and> k < length ds \<and> (\<forall>j<length ds. ds ! k \<le> ds ! j)
            \<and> (\<forall>j<k. ds ! k < ds ! j)"
proof -
  obtain d rest where ds: "ds = d # rest" using assms by (cases ds) auto
  have "argmin_loop rest 1 0 d < length ([d] @ rest)
       \<and> (\<forall>j<length ([d] @ rest). ([d] @ rest) ! argmin_loop rest 1 0 d \<le> ([d] @ rest) ! j)
       \<and> (\<forall>j<argmin_loop rest 1 0 d. ([d] @ rest) ! argmin_loop rest 1 0 d < ([d] @ rest) ! j)"
    by (rule argmin_loop_first_min) simp_all
  then show ?thesis by (simp add: ds argmin_def)
qed

lemma match_pixel_first_nearest:
  assumes "snd mp \<noteq> []" "length (fst mp) = length (snd mp)"
    and "\<forall>c\<in>set (snd mp). in_range c" and "in_range p"
  shows "\<exists>i. match_pixel mp p = Inr (fst mp ! i) \<and> first_nearest (snd mp) p i"
proof -
  let ?ds = "map (\<lambda>c. distance c p) (snd mp)"
  have "?ds \<noteq> []" using assms(1) by simp
  from argmin_first_min [OF this] obtain k where k: "argmin ?ds = Inr k" "k < length (snd mp)"
    "\<forall>j<length (snd mp). ?ds ! k \<le> ?ds ! j" "\<forall>j<k. ?ds ! k < ?ds ! j" by auto
  have r: "in_range (snd mp ! j)" if "j < length (snd mp)" for j
    using assms(3) that by simp
  have le: "mean_abs_diff (snd mp ! k) p \<le> mean_abs_diff (snd mp ! j) p" if "j < length (snd mp)" for j
  proof -
    have "distance (snd mp ! k) p \<le> distance (snd mp ! j) p" using k(2,3) that by simp
    then show ?thesis using distance_le_iff [OF r [OF k(2)] r [OF that] assms(4)] by simp
  qed
  have lt: "mean_abs_diff (snd mp ! k) p < mean_abs_diff (snd mp ! j) p" if "j < k" for j
  proof -
    have j: "j < length (snd mp)" using that k(2) by simp
    have "distance (snd mp ! k) p < distance (snd mp ! j) p" using k(2,4) that j by simp
    then show ?thesis using distance_less_iff [OF r [OF k(2)] r [OF j] assms(4)] by simp
  qed
  have "first_nearest (snd mp) p k"
    unfolding first_nearest_def using k(2) le lt by blast
  moreover have "match_pixel mp p = Inr (fst mp ! k)"
    using k(1,2) assms(1,2) by (simp add: match_pixel_def)
  ultimately show ?thesis by blast
qed

lemma distance_small:
  assumes "in_range c" "in_range p" "mean_abs_diff c p = of_int n" 
  shows "distance c p = of_int n"
proof -
  have "0 \<le> (of_int n :: rat)" "(of_int n :: rat) < 2 ^ 51"
    using mean_abs_diff_bounds [OF assms(1,2)] by (simp_all add: assms(3))
  then have "0 \<le> n" "n < 2 ^ 51" by simp_all
  then have "round_float64 (of_int n) = of_int n" by (intro round_float64_of_int) simp
  then show ?thesis by (simp add: distance_in_range assms)
qed

lemma traverse_singleton: "f x = Inr y \<Longrightarrow> traverse f [x] = Inr [y]"
  by simp

lemma row_examples:
  "traverse (match_pixel ([a, b], [(0, 0, 0), (255, 255, 255)])) [(10, 10, 10), (250, 250, 250)]
     = Inr [a, b]"
  "traverse (match_pixel ([a, b], [(0, 0, 0), (2, 2, 2)])) [(1, 1, 1)] = Inr [a]"
proof -
  have d1: "distance (0, 0, 0) (10, 10, 10) = of_int 10"
    by (rule distance_small) (simp_all add: in_range_def mean_abs_diff_def)
  have d2: "distance (255, 255, 255) (10, 10, 10) = of_int 245"
    by (rule distance_small) (simp_all add: in_range_def mean_abs_diff_def)
  have d3: "distance (0, 0, 0) (250, 250, 250) = of_int 250"
    by (rule distance_small) (simp_all add: in_range_def mean_abs_diff_def)
  have d4: "distance (255, 255, 255) (250, 250, 250) = of_int 5"
    by (rule distance_small) (simp_all add: in_range_def mean_abs_diff_def)
  have d5: "distance (0, 0, 0) (1, 1, 1) = of_int 1"
    by (rule distance_small) (simp_all add: in_range_def mean_abs_diff_def)
  have d6: "distance (2, 2, 2) (1, 1, 1) = of_int 1"
    by (rule distance_small) (simp_all add: in_range_def mean_abs_diff_def)
  show "traverse (match_pixel ([a, b], [(0, 0, 0), (255, 255, 255)])) [(10, 10, 10), (250, 250, 250)]
     = Inr [a, b]"
    by (simp add: match_pixel_def argmin_def d1 d2 d3 d4)
  show "traverse (match_pixel ([a, b], [(0, 0, 0), (2, 2, 2)])) [(1, 1, 1)] = Inr [a]"
    by (simp add: match_pixel_def argmin_def d5 d6)
qed

text \<open>
  C3, amended: for a palette that is not empty (its two arrays of the same length, as
  \<open>parse_mosaic_palette\<close> builds them), when every channel of every colour of the
  palette and of every pixel of the grid is below \<open>2 ^ 50\<close> in absolute value,
  \<open>get_image_mask\<close> returns a mask of the shape of the grid, and each cell holds the
  fingerprint at the first index whose colour is at the least mean absolute difference
  from the pixel, the mean being the exact one. With the colours (0,0,0) and
  (255,255,255), the pixel (10,10,10) gets the first fingerprint and (250,250,250) the
  second; a pixel at the same distance from two colours gets the first.
\<close>

theorem get_image_mask_first_nearest:
  assumes "snd mp \<noteq> []" and "length (fst mp) = length (snd mp)"
    and "\<forall>c\<in>set (snd mp). in_range c"
    and "\<forall>row\<in>set pixel_values. \<forall>p\<in>set row. in_range p"
  shows "(\<exists>image_mask. snd (get_image_mask pixel_values mp w) = Inr image_mask
           \<and> length image_mask = length pixel_values
           \<and> (\<forall>x<length pixel_values. length (image_mask ! x) = length (pixel_values ! x)
                \<and> (\<forall>y<length (pixel_values ! x). \<exists>i.
                      image_mask ! x ! y = fst mp ! i
                      \<and> first_nearest (snd mp) (pixel_values ! x ! y) i)))
         \<and> snd (get_image_mask [[(10, 10, 10), (250, 250, 250)]]
                  ([a, b], [(0, 0, 0), (255, 255, 255)]) w) = Inr [[a, b]]
         \<and> snd (get_image_mask [[(1, 1, 1)]] ([a, b], [(0, 0, 0), (2, 2, 2)]) w) = Inr [[a]]"
proof -
  have cell: "\<exists>i. match_pixel mp (pixel_values ! x ! y) = Inr (fst mp ! i)
                 \<and> first_nearest (snd mp) (pixel_values ! x ! y) i"
    if "x < length pixel_values" "y < length (pixel_values ! x)" for x y
  proof -
    have "pixel_values ! x \<in> set pixel_values" using that(1) by simp
    moreover have "pixel_values ! x ! y \<in> set (pixel_values ! x)" using that(2) by simp
    ultimately have "in_range (pixel_values ! x ! y)" using assms(4) by blast
    then show ?thesis by (rule match_pixel_first_nearest [OF assms(1-3)])
  qed
  have row: "\<exists>hs. traverse (match_pixel mp) (pixel_values ! x) = Inr hs"
    if x: "x < length pixel_values" for x
  proof (rule traverse_total)
    fix p assume "p \<in> set (pixel_values ! x)"
    then obtain y where "y < length (pixel_values ! x)" "p = pixel_values ! x ! y"
      by (auto simp: in_set_conv_nth)
    then show "\<exists>h. match_pixel mp p = Inr h" using cell [OF x] by blast
  qed
  have "\<exists>image_mask. traverse (traverse (match_pixel mp)) pixel_values = Inr image_mask"
  proof (rule traverse_total)
    fix ps assume "ps \<in> set pixel_values"
    then obtain x where "x < length pixel_values" "ps = pixel_values ! x"
      by (auto simp: in_set_conv_nth)
    then show "\<exists>hs. traverse (match_pixel mp) ps = Inr hs" using row by blast
  qed
  then obtain image_mask where m: "traverse (traverse (match_pixel mp)) pixel_values = Inr image_mask"
    by blast
  then have len: "length image_mask = length pixel_values"
    and rows: "\<forall>x<length pixel_values. traverse (match_pixel mp) (pixel_values ! x) = Inr (image_mask ! x)"
    by (simp_all add: traverse_Inr_iff)
  have "length (image_mask ! x) = length (pixel_values ! x)
        \<and> (\<forall>y<length (pixel_values ! x). \<exists>i.
              image_mask ! x ! y = fst mp ! i \<and> first_nearest (snd mp) (pixel_values ! x ! y) i)"
    if x: "x < length pixel_values" for x
  proof -
    from rows x have r: "traverse (match_pixel mp) (pixel_values ! x) = Inr (image_mask ! x)" by simp
    then have l: "length (image_mask ! x) = length (pixel_values ! x)"
      and c: "\<forall>y<length (pixel_values ! x). match_pixel mp (pixel_values ! x ! y) = Inr (image_mask ! x ! y)"
      by (simp_all add: traverse_Inr_iff)
    have "\<exists>i. image_mask ! x ! y = fst mp ! i \<and> first_nearest (snd mp) (pixel_values ! x ! y) i"
      if "y < length (pixel_values ! x)" for y
      using cell [OF x that] c that by auto
    then show ?thesis using l by blast
  qed
  moreover have "snd (get_image_mask pixel_values mp w) = Inr image_mask"
    by (simp add: get_image_mask_def m)
  moreover have "snd (get_image_mask [[(10, 10, 10), (250, 250, 250)]]
                  ([a, b], [(0, 0, 0), (255, 255, 255)]) w) = Inr [[a, b]]"
    unfolding get_image_mask_def
      traverse_singleton [of "traverse (match_pixel ([a, b], [(0, 0, 0), (255, 255, 255)]))"
        "[(10, 10, 10), (250, 250, 250)]" "[a, b]", OF row_examples(1)] by simp
  moreover have "snd (get_image_mask [[(1, 1, 1)]] ([a, b], [(0, 0, 0), (2, 2, 2)]) w) = Inr [[a]]"
    unfolding get_image_mask_def
      traverse_singleton [of "traverse (match_pixel ([a, b], [(0, 0, 0), (2, 2, 2)]))"
        "[(1, 1, 1)]" "[a]", OF row_examples(2)] by simp
  ultimately show ?thesis using len by blast
qed

text \<open>
  C3, as the code has it. The colour \<open>- 2 ^ 63\<close> is what the cast stores for a number
  beyond int64, such as the cache line \<^verbatim>\<open>1e30 0 0\<close>. Its difference from the pixel
  wraps, \<^verbatim>\<open>abs\<close> leaves it negative, and the matcher picks the entry although the
  second colour is nearer to the pixel: the claim's "every non-empty palette" does not
  hold.
\<close>

theorem get_image_mask_wraps:
  "snd (get_image_mask [[(0, 0, 0)]]
          ([''aa'', ''bb''], [(- (2 ^ 63), 0, 0), (1000, 1000, 1000)]) empty_world) = Inr [[''aa'']]
   \<and> mean_abs_diff (1000, 1000, 1000) (0, 0, 0) < mean_abs_diff (- (2 ^ 63), 0, 0) (0, 0, 0)"
proof -
  have w: "int64 \<bar>int64 (- (2 ^ 63) - 0)\<bar> = - (2 ^ 63)"
    by (simp add: int64_def)
  have z: "int64 \<bar>int64 (0 - 0)\<bar> = 0"
    by (simp add: int64_def)
  have "round_float64 (of_int (- (2 ^ 63))) \<le> 0"
    by (rule round_float64_nonpos) simp
  then have "round_float64 (round_float64 (of_int (- (2 ^ 63))) + round_float64 (of_int 0)) \<le> 0"
    by (intro round_float64_nonpos) (simp add: round_float64_def)
  then have "round_float64 (round_float64 (round_float64 (of_int (- (2 ^ 63))) + round_float64 (of_int 0))
               + round_float64 (of_int 0)) \<le> 0"
    by (intro round_float64_nonpos) (simp add: round_float64_def)
  then have "round_float64 (round_float64 (round_float64 (round_float64 (of_int (- (2 ^ 63)))
               + round_float64 (of_int 0)) + round_float64 (of_int 0)) / 3) \<le> 0"
    by (intro round_float64_nonpos) simp
  then have a: "distance (- (2 ^ 63), 0, 0) (0, 0, 0) \<le> 0"
    unfolding distance_def Let_def fst_conv snd_conv w z .
  have b: "distance (1000, 1000, 1000) (0, 0, 0) = of_int 1000"
    by (rule distance_small) (simp_all add: in_range_def mean_abs_diff_def)
  have "match_pixel ([''aa'', ''bb''], [(- (2 ^ 63), 0, 0), (1000, 1000, 1000)]) (0, 0, 0) = Inr ''aa''"
    using a by (simp add: match_pixel_def argmin_def b)
  then have "traverse (match_pixel ([''aa'', ''bb''], [(- (2 ^ 63), 0, 0), (1000, 1000, 1000)])) [(0, 0, 0)]
             = Inr [''aa'']"
    by (rule traverse_singleton)
  then have "traverse (traverse (match_pixel ([''aa'', ''bb''], [(- (2 ^ 63), 0, 0), (1000, 1000, 1000)])))
               [[(0, 0, 0)]] = Inr [[''aa'']]"
    by (rule traverse_singleton)
  then have "snd (get_image_mask [[(0, 0, 0)]]
          ([''aa'', ''bb''], [(- (2 ^ 63), 0, 0), (1000, 1000, 1000)]) empty_world) = Inr [[''aa'']]"
    unfolding get_image_mask_def by simp
  moreover have "mean_abs_diff (1000, 1000, 1000) (0, 0, 0) < mean_abs_diff (- (2 ^ 63), 0, 0) (0, 0, 0)"
    by (simp add: mean_abs_diff_def)
  ultimately show ?thesis by simp
qed

theorem get_image_mask_first_nearest_witness:
  "\<exists>image_mask.
     snd (get_image_mask [[(10, 10, 10), (250, 250, 250)]]
            ([''aa'', ''bb''], [(0, 0, 0), (255, 255, 255)]) empty_world) = Inr image_mask
     \<and> image_mask ! 0 ! 0 = ''aa'' \<and> image_mask ! 0 ! 1 = ''bb''"
proof -
  let ?mp = "([''aa'', ''bb''], [(0, 0, 0), (255, 255, 255) :: pixel])"
  let ?grid = "[[(10, 10, 10), (250, 250, 250) :: pixel]]"
  have h1: "snd ?mp \<noteq> []" by simp
  have h2: "length (fst ?mp) = length (snd ?mp)" by simp
  have h3: "\<forall>c\<in>set (snd ?mp). in_range c" by (simp add: in_range_def)
  have h4: "\<forall>row\<in>set ?grid. \<forall>p\<in>set row. in_range p" by (simp add: in_range_def)
  from get_image_mask_first_nearest [OF h1 h2 h3 h4, of empty_world, THEN conjunct1]
  obtain image_mask where m: "snd (get_image_mask ?grid ?mp empty_world) = Inr image_mask"
    and c: "\<forall>x<length ?grid. length (image_mask ! x) = length (?grid ! x)
              \<and> (\<forall>y<length (?grid ! x). \<exists>i. image_mask ! x ! y = fst ?mp ! i
                     \<and> first_nearest (snd ?mp) (?grid ! x ! y) i)"
    by blast
  from c have c0: "\<forall>y<length (?grid ! 0). \<exists>i. image_mask ! 0 ! y = fst ?mp ! i
                     \<and> first_nearest (snd ?mp) (?grid ! 0 ! y) i"
    by simp
  from c0 obtain i where i: "image_mask ! 0 ! 0 = fst ?mp ! i"
      "first_nearest (snd ?mp) (?grid ! 0 ! 0) i"
    by auto
  from c0 obtain j where j: "image_mask ! 0 ! 1 = fst ?mp ! j"
      "first_nearest (snd ?mp) (?grid ! 0 ! 1) j"
    by auto
  have "i < 2" using i(2) by (simp add: first_nearest_def)
  moreover have "i \<noteq> 1"
  proof
    assume "i = 1"
    then have "mean_abs_diff (255, 255, 255) (10, 10, 10) \<le> mean_abs_diff (0, 0, 0) (10, 10, 10)"
      using i(2) by (auto simp: first_nearest_def)
    then show False by (simp add: mean_abs_diff_def)
  qed
  ultimately have "i = 0" by simp
  have "j < 2" using j(2) by (simp add: first_nearest_def)
  moreover have "j \<noteq> 0"
  proof
    assume "j = 0"
    then have "mean_abs_diff (0, 0, 0) (250, 250, 250) \<le> mean_abs_diff (255, 255, 255) (250, 250, 250)"
      using j(2) by (auto simp: first_nearest_def)
    then show False by (simp add: mean_abs_diff_def)
  qed
  ultimately have "j = 1" by simp
  show ?thesis using m i(1) j(1) \<open>i = 0\<close> \<open>j = 1\<close> by simp
qed

section \<open>parse_mosaic_palette pairs the lines\<close>

lemma trunc_half: "trunc (1 / 2) = 0"
  by (simp add: trunc_def floor_eq_iff)

lemma trunc_of_int: "trunc (of_int n) = n"
  by (simp add: trunc_def)

lemma astype_int64_range: "- (2 ^ 63) \<le> astype_int64 x \<and> astype_int64 x < 2 ^ 63"
  by (simp add: astype_int64_def split: float64.splits)

lemma assign_row_cast:
  "length v = 3 \<or> length v = 1 \<Longrightarrow> assign_row v = Inr (cast_row v)"
  by (cases v rule: assign_row.cases) (simp_all add: cast_row_def)

lemma assign_row_raises:
  "length v \<noteq> 3 \<Longrightarrow> length v \<noteq> 1 \<Longrightarrow> assign_row v = Inl ValueError_broadcast"
  by (cases v rule: assign_row.cases) simp_all

lemma assign_row_error: "assign_row v = Inl e \<Longrightarrow> e = ValueError_broadcast"
  by (cases v rule: assign_row.cases) simp_all

lemma traverse_Inl:
  assumes "\<exists>x\<in>set xs. f x = Inl e" and "\<forall>x\<in>set xs. \<forall>e'. f x = Inl e' \<longrightarrow> e' = e"
  shows "traverse f xs = Inl e"
  using assms
proof (induction xs)
  case Nil
  then show ?case by simp
next
  case (Cons a xs)
  show ?case
  proof (cases "f a")
    case (Inl e')
    then have "e' = e" using Cons.prems(2) by simp
    then show ?thesis using Inl by simp
  next
    case (Inr y)
    then have "\<exists>x\<in>set xs. f x = Inl e" using Cons.prems(1) by auto
    moreover have "\<forall>x\<in>set xs. \<forall>e'. f x = Inl e' \<longrightarrow> e' = e" using Cons.prems(2) by simp
    ultimately have "traverse f xs = Inl e" by (rule Cons.IH)
    then show ?thesis using Inr by simp
  qed
qed

text \<open>
  C10, as the code has it. A list whose second line has two numbers makes the
  assignment to the row of three cells raise, so no palette is produced for it: the
  claim's "for every input list of lines" does not hold.
\<close>

theorem parse_mosaic_palette_raises:
  "parse_mosaic_palette sample_numpy [''aa'', ''1 2''] = Inl ValueError_broadcast"
  by (simp add: parse_mosaic_palette_def sample_numpy_def)

text \<open>
  C10, amended. With \<open>n\<close> the length of the list: when each line of odd index among
  the first \<open>2 * (n div 2)\<close> parses to three numbers or to one, \<open>parse_mosaic_palette\<close>
  returns exactly \<open>n div 2\<close> entries; entry \<open>i\<close> has line \<open>2 * i\<close> as its fingerprint
  and the numbers of line \<open>2 * i + 1\<close>, cast to int64, as its colour. When one of these
  lines parses to no number, to two or to more than three, the function raises
  ValueError. A line appended to a list of even length changes nothing: the unpaired
  last line is ignored, not rejected.
\<close>

theorem parse_mosaic_palette_pairs:
  "((\<forall>i<length mp div 2. length (fromstring np (mp ! (i * 2 + 1))) = 3
                         \<or> length (fromstring np (mp ! (i * 2 + 1))) = 1) \<longrightarrow>
      parse_mosaic_palette np mp =
        Inr (map (\<lambda>i. mp ! (i * 2)) [0..<length mp div 2],
             map (\<lambda>i. cast_row (fromstring np (mp ! (i * 2 + 1)))) [0..<length mp div 2]))
   \<and> ((\<exists>i<length mp div 2. length (fromstring np (mp ! (i * 2 + 1))) \<noteq> 3
                          \<and> length (fromstring np (mp ! (i * 2 + 1))) \<noteq> 1) \<longrightarrow>
      parse_mosaic_palette np mp = Inl ValueError_broadcast)
   \<and> (even (length mp) \<longrightarrow>
        parse_mosaic_palette np (mp @ [x]) = parse_mosaic_palette np mp)"
proof -
  let ?row = "\<lambda>i. assign_row (fromstring np (mp ! (i * 2 + 1)))"
  have A: "parse_mosaic_palette np mp =
        Inr (map (\<lambda>i. mp ! (i * 2)) [0..<length mp div 2],
             map (\<lambda>i. cast_row (fromstring np (mp ! (i * 2 + 1)))) [0..<length mp div 2])"
    if "\<forall>i<length mp div 2. length (fromstring np (mp ! (i * 2 + 1))) = 3
                         \<or> length (fromstring np (mp ! (i * 2 + 1))) = 1"
  proof -
    have "traverse ?row [0..<length mp div 2] =
          Inr (map (\<lambda>i. cast_row (fromstring np (mp ! (i * 2 + 1)))) [0..<length mp div 2])"
      using that by (intro traverse_Inr) (simp add: assign_row_cast)
    then show ?thesis unfolding parse_mosaic_palette_def Let_def by simp
  qed
  have B: "parse_mosaic_palette np mp = Inl ValueError_broadcast"
    if "\<exists>i<length mp div 2. length (fromstring np (mp ! (i * 2 + 1))) \<noteq> 3
                          \<and> length (fromstring np (mp ! (i * 2 + 1))) \<noteq> 1"
  proof -
    from that obtain i where i: "i < length mp div 2" "?row i = Inl ValueError_broadcast"
      using assign_row_raises by blast
    have "traverse ?row [0..<length mp div 2] = Inl ValueError_broadcast"
    proof (rule traverse_Inl)
      show "\<exists>k\<in>set [0..<length mp div 2]. ?row k = Inl ValueError_broadcast"
        using i by auto
      show "\<forall>k\<in>set [0..<length mp div 2]. \<forall>e'. ?row k = Inl e' \<longrightarrow> e' = ValueError_broadcast"
        using assign_row_error by blast
    qed
    then show ?thesis unfolding parse_mosaic_palette_def Let_def by simp
  qed
  have C: "parse_mosaic_palette np (mp @ [x]) = parse_mosaic_palette np mp" if "even (length mp)"
  proof -
    have n: "length (mp @ [x]) div 2 = length mp div 2" using that by auto
    have "traverse (\<lambda>i. assign_row (fromstring np ((mp @ [x]) ! (i * 2 + 1)))) [0..<length mp div 2]
        = traverse ?row [0..<length mp div 2]"
      using that by (intro traverse_cong) (auto simp: nth_append elim!: evenE)
    moreover have "map (\<lambda>i. (mp @ [x]) ! (i * 2)) [0..<length mp div 2]
                   = map (\<lambda>i. mp ! (i * 2)) [0..<length mp div 2]"
      using that by (auto simp: nth_append elim!: evenE)
    ultimately show ?thesis
      unfolding parse_mosaic_palette_def n Let_def by (simp split: sum.splits)
  qed
  show ?thesis using A B C by blast
qed

lemma cast_samples:
  "cast_row [Finite (1 / 2), Finite (1 / 2), Finite (1 / 2)] = (0, 0, 0)"
  "cast_row [Finite 7] = (7, 7, 7)"
  "cast_row [Finite (10 ^ 30), NaN, NegInf] = (- (2 ^ 63), - (2 ^ 63), - (2 ^ 63))"
proof -
  show "cast_row [Finite (1 / 2), Finite (1 / 2), Finite (1 / 2)] = (0, 0, 0)"
    by (simp add: cast_row_def astype_int64_def trunc_half)
  have "trunc 7 = 7" using trunc_of_int [of 7] by simp
  then show "cast_row [Finite 7] = (7, 7, 7)"
    by (simp add: cast_row_def astype_int64_def)
  have "trunc (10 ^ 30) = 10 ^ 30" using trunc_of_int [of "10 ^ 30"] by simp
  then show "cast_row [Finite (10 ^ 30), NaN, NegInf] = (- (2 ^ 63), - (2 ^ 63), - (2 ^ 63))"
    by (simp add: cast_row_def astype_int64_def)
qed

theorem parse_mosaic_palette_pairs_witness:
  "parse_mosaic_palette sample_numpy [''aa'', ''0.5 0.5 0.5'', ''bb'', ''7'']
     = Inr ([''aa'', ''bb''], [(0, 0, 0), (7, 7, 7)])
   \<and> parse_mosaic_palette sample_numpy [''aa'', ''1e30 nan -inf'']
     = Inr ([''aa''], [(- (2 ^ 63), - (2 ^ 63), - (2 ^ 63))])
   \<and> parse_mosaic_palette sample_numpy [''aa'', ''7'', ''bb'', ''1 2''] = Inl ValueError_broadcast
   \<and> parse_mosaic_palette sample_numpy [''aa'', ''0.5 0.5 0.5'', ''bb'']
     = Inr ([''aa''], [(0, 0, 0)])"
proof -
  let ?A = "[''aa'', ''0.5 0.5 0.5'', ''bb'', ''7'']"
  let ?B = "[''aa'', ''1e30 nan -inf'']"
  let ?C = "[''aa'', ''7'', ''bb'', ''1 2'']"
  let ?D = "[''aa'', ''0.5 0.5 0.5'']"
  have u: "[0..<2] = [0, 1]" "[0..<1] = [0]" by (simp_all add: upt_rec)
  have l: "length ?A div 2 = 2" by simp
  have f: "fromstring sample_numpy ''0.5 0.5 0.5'' = [Finite (1 / 2), Finite (1 / 2), Finite (1 / 2)]"
    "fromstring sample_numpy ''7'' = [Finite 7]"
    "fromstring sample_numpy ''1e30 nan -inf'' = [Finite (10 ^ 30), NaN, NegInf]"
    "fromstring sample_numpy ''1 2'' = [Finite 1, Finite 2]"
    by (simp_all add: sample_numpy_def)
  have hA: "\<forall>i<length ?A div 2. length (fromstring sample_numpy (?A ! (i * 2 + 1))) = 3
                                \<or> length (fromstring sample_numpy (?A ! (i * 2 + 1))) = 1"
    unfolding l by (auto simp: f less_2_cases_iff)
  have hB: "\<forall>i<length ?B div 2. length (fromstring sample_numpy (?B ! (i * 2 + 1))) = 3
                                \<or> length (fromstring sample_numpy (?B ! (i * 2 + 1))) = 1"
    by (auto simp: f)
  have hC: "\<exists>i<length ?C div 2. length (fromstring sample_numpy (?C ! (i * 2 + 1))) \<noteq> 3
                                \<and> length (fromstring sample_numpy (?C ! (i * 2 + 1))) \<noteq> 1"
    by (intro exI [of _ 1]) (simp add: f)
  have hD: "\<forall>i<length ?D div 2. length (fromstring sample_numpy (?D ! (i * 2 + 1))) = 3
                                \<or> length (fromstring sample_numpy (?D ! (i * 2 + 1))) = 1"
    by (auto simp: f)
  have a: "parse_mosaic_palette sample_numpy ?A = Inr ([''aa'', ''bb''], [(0, 0, 0), (7, 7, 7)])"
    using parse_mosaic_palette_pairs [of ?A sample_numpy, THEN conjunct1, THEN mp, OF hA]
    by (simp add: u f cast_samples)
  have cs: "cast_row [Finite 1000000000000000000000000000000, NaN, NegInf]
            = (- 9223372036854775808, - 9223372036854775808, - 9223372036854775808)"
    using cast_samples(3) by simp
  have b: "parse_mosaic_palette sample_numpy ?B = Inr ([''aa''], [(- (2 ^ 63), - (2 ^ 63), - (2 ^ 63))])"
    using parse_mosaic_palette_pairs [of ?B sample_numpy, THEN conjunct1, THEN mp, OF hB]
    by (simp add: u f cs)
  have c: "parse_mosaic_palette sample_numpy ?C = Inl ValueError_broadcast"
    using parse_mosaic_palette_pairs [of ?C sample_numpy, THEN conjunct2, THEN conjunct1, THEN mp, OF hC] .
  have "parse_mosaic_palette sample_numpy ?D = Inr ([''aa''], [(0, 0, 0)])"
    using parse_mosaic_palette_pairs [of ?D sample_numpy, THEN conjunct1, THEN mp, OF hD]
    by (simp add: u f cast_samples)
  then have d: "parse_mosaic_palette sample_numpy (?D @ [''bb'']) = Inr ([''aa''], [(0, 0, 0)])"
    using parse_mosaic_palette_pairs [of ?D sample_numpy "''bb''", THEN conjunct2, THEN conjunct2]
    by simp
  show ?thesis using a b c d by simp
qed

section \<open>The entries of the palette follow the files of the directory\<close>

lemma digest_no_space:
  assumes "is_digest h"
  shows "CHR '' '' \<notin> set h"
proof
  assume "CHR '' '' \<in> set h"
  then have "CHR '' '' \<in> set ''0123456789abcdef''"
    using assms unfolding is_digest_def by blast
  then show False by simp
qed

lemma colour_line_not_digest: "\<not> is_digest (colour_line np v)"
proof
  assume "is_digest (colour_line np v)"
  then have "CHR '' '' \<notin> set (colour_line np v)" by (rule digest_no_space)
  then show False by (simp add: colour_line_def)
qed

lemma wf_index:
  "wf_record R \<Longrightarrow> is_digest h \<Longrightarrow> h \<in> set R \<Longrightarrow>
   index R h + 1 < length R \<and> \<not> is_digest (R ! (index R h + 1))"
proof (induction R rule: wf_record.induct)
  case 1
  then show ?case by simp
next
  case (2 x)
  then show ?case by simp
next
  case (3 k c r)
  show ?case
  proof (cases "k = h")
    case True
    then show ?thesis using 3 by simp
  next
    case False
    have "c \<noteq> h" using 3 by auto
    then have "h \<in> set r" using 3 False by auto
    then have "index r h + 1 < length r \<and> \<not> is_digest (r ! (index r h + 1))"
      using 3 by simp
    then show ?thesis using False \<open>c \<noteq> h\<close> by simp
  qed
qed

lemma entry_lines_usable:
  assumes "wf_record sv" and "\<forall>h. md5 e = Some h \<longrightarrow> is_digest h"
  shows "entry_lines np sv e = (if usable sv e then [the (md5 e), stored_colour np sv e] else [])"
proof (cases "md5 e")
  case None
  then show ?thesis by (simp add: entry_lines_def usable_def)
next
  case (Some h)
  show ?thesis
  proof (cases "h \<in> set sv")
    case True
    have "index sv h + 1 < length sv" using wf_index [of sv h] assms Some True by simp
    then show ?thesis using Some True
      by (simp add: entry_lines_def usable_def stored_colour_def)
  next
    case False
    then show ?thesis using Some
      by (auto simp: entry_lines_def usable_def stored_colour_def tile_mean_def split: sum.splits)
  qed
qed

lemma cache_eq_flat:
  assumes "wf_record sv" and "\<forall>e\<in>set es. \<forall>h. md5 e = Some h \<longrightarrow> is_digest h"
  shows "concat (map (entry_lines np sv) es)
         = flat (map (\<lambda>e. (the (md5 e), stored_colour np sv e)) (filter (usable sv) es))"
  using assms(2)
proof (induction es)
  case Nil
  show ?case by simp
next
  case (Cons e es)
  have "entry_lines np sv e = (if usable sv e then [the (md5 e), stored_colour np sv e] else [])"
    using Cons.prems assms(1) by (intro entry_lines_usable) simp_all
  then show ?case using Cons by simp
qed

lemma length_flat: "length (flat ps) = 2 * length ps"
  by (induction ps) simp_all

lemma flat_nth:
  "i < length ps \<Longrightarrow> flat ps ! (i * 2) = fst (ps ! i) \<and> flat ps ! (i * 2 + 1) = snd (ps ! i)"
proof (induction ps arbitrary: i)
  case Nil
  then show ?case by simp
next
  case (Cons p ps)
  show ?case
  proof (cases i)
    case 0
    then show ?thesis by simp
  next
    case (Suc j)
    then have "j < length ps" using Cons.prems by simp
    from Cons.IH [OF this] show ?thesis using Suc by simp
  qed
qed

lemma flat_nth_Suc: "i < length ps \<Longrightarrow> flat ps ! Suc (i * 2) = snd (ps ! i)"
  using flat_nth [of i ps] by simp

lemma traverse_map: "traverse f (map g xs) = traverse (\<lambda>x. f (g x)) xs"
  by (induction xs) (simp_all split: sum.splits)

lemma traverse_nth: "traverse (\<lambda>i. f (xs ! i)) [0..<length xs] = traverse f xs"
proof -
  have "traverse f (map (\<lambda>i. xs ! i) [0..<length xs]) = traverse (\<lambda>i. f (xs ! i)) [0..<length xs]"
    by (rule traverse_map)
  then show ?thesis by (simp add: map_nth)
qed

lemma parse_flat:
  "parse_mosaic_palette np (flat ps) =
     (case traverse (\<lambda>p. assign_row (fromstring np (snd p))) ps of
        Inl e \<Rightarrow> Inl e
      | Inr colours \<Rightarrow> Inr (map fst ps, colours))"
proof -
  have n: "length (flat ps) div 2 = length ps" by (simp add: length_flat)
  have "traverse (\<lambda>i. assign_row (fromstring np (flat ps ! (i * 2 + 1)))) [0..<length ps]
        = traverse (\<lambda>i. assign_row (fromstring np (snd (ps ! i)))) [0..<length ps]"
    by (intro traverse_cong) (simp add: flat_nth_Suc)
  also have "\<dots> = traverse (\<lambda>p. assign_row (fromstring np (snd p))) ps"
    by (rule traverse_nth)
  finally have t: "traverse (\<lambda>i. assign_row (fromstring np (flat ps ! (i * 2 + 1)))) [0..<length ps]
        = traverse (\<lambda>p. assign_row (fromstring np (snd p))) ps" .
  have "map (\<lambda>i. flat ps ! (i * 2)) [0..<length ps] = map (\<lambda>i. fst (ps ! i)) [0..<length ps]"
    by (simp add: flat_nth)
  also have "\<dots> = map fst (map (\<lambda>i. ps ! i) [0..<length ps])"
    by simp
  also have "\<dots> = map fst ps"
    by (simp only: map_nth)
  finally have m: "map (\<lambda>i. flat ps ! (i * 2)) [0..<length ps] = map fst ps" .
  show ?thesis
    unfolding parse_mosaic_palette_def n Let_def t m by simp
qed

lemma usable_md5: "usable sv e \<Longrightarrow> \<exists>h. md5 e = Some h"
  by (cases "md5 e") (simp_all add: usable_def)

lemma get_mosaic_palette_flat:
  assumes "wf_record (saved_lines w)"
    and "\<forall>e\<in>set (mosaics w). \<forall>h. md5 e = Some h \<longrightarrow> is_digest h"
  shows "snd (get_mosaic_palette np d w) =
         parse_mosaic_palette np
           (flat (map (\<lambda>e. (the (md5 e), stored_colour np (saved_lines w) e))
                   (filter (usable (saved_lines w)) (mosaics w))))"
  using assms by (simp add: get_mosaic_palette_result cache_eq_flat)

lemma traverse_length: "traverse f xs = Inr ys \<Longrightarrow> length ys = length xs"
  by (simp add: traverse_Inr_iff)

text \<open>
  C1, amended. When the loaded record has the shape the program writes and the hashes
  are md5 digests, the palette \<open>get_mosaic_palette\<close> returns has one entry for each
  usable file of the directory, in the order of the listing, with the hash of that file
  as its fingerprint (and as many colours as fingerprints). So its fingerprints are
  pairwise distinct exactly when no two usable files have the same hash: nothing is
  dropped because its hash has been met before.
\<close>

theorem get_mosaic_palette_fingerprints:
  assumes "wf_record (saved_lines w)"
    and "\<forall>e\<in>set (mosaics w). \<forall>h. md5 e = Some h \<longrightarrow> is_digest h"
    and "snd (get_mosaic_palette np d w) = Inr mosaic_palette"
  shows "fst mosaic_palette = map (\<lambda>e. the (md5 e)) (filter (usable (saved_lines w)) (mosaics w))
         \<and> length (snd mosaic_palette) = length (fst mosaic_palette)
         \<and> (distinct (fst mosaic_palette) \<longleftrightarrow>
              (\<forall>i<length (filter (usable (saved_lines w)) (mosaics w)).
               \<forall>j<length (filter (usable (saved_lines w)) (mosaics w)).
                 i \<noteq> j \<longrightarrow> md5 (filter (usable (saved_lines w)) (mosaics w) ! i)
                             \<noteq> md5 (filter (usable (saved_lines w)) (mosaics w) ! j)))"
proof -
  define us where "us = filter (usable (saved_lines w)) (mosaics w)"
  let ?ps = "map (\<lambda>e. (the (md5 e), stored_colour np (saved_lines w) e)) us"
  have "parse_mosaic_palette np (flat ?ps) = Inr mosaic_palette"
    using get_mosaic_palette_flat [OF assms(1,2), of np d] assms(3) by (simp add: us_def)
  then obtain colours where c: "traverse (\<lambda>p. assign_row (fromstring np (snd p))) ?ps = Inr colours"
    and p: "mosaic_palette = (map fst ?ps, colours)"
    by (auto simp: parse_flat split: sum.splits)
  have A: "fst mosaic_palette = map (\<lambda>e. the (md5 e)) us"
    by (simp add: p comp_def)
  have B: "length (snd mosaic_palette) = length (fst mosaic_palette)"
    using traverse_length [OF c] by (simp add: p)
  have some: "\<exists>h. md5 (us ! i) = Some h" if "i < length us" for i
  proof -
    have "us ! i \<in> set us" using that by simp
    then have "usable (saved_lines w) (us ! i)" by (simp add: us_def)
    then show ?thesis by (rule usable_md5)
  qed
  have "distinct (map (\<lambda>e. the (md5 e)) us) \<longleftrightarrow>
        (\<forall>i<length us. \<forall>j<length us. i \<noteq> j \<longrightarrow> the (md5 (us ! i)) \<noteq> the (md5 (us ! j)))"
    by (simp add: distinct_conv_nth)
  also have "\<dots> \<longleftrightarrow> (\<forall>i<length us. \<forall>j<length us. i \<noteq> j \<longrightarrow> md5 (us ! i) \<noteq> md5 (us ! j))"
    using some by (metis option.sel)
  finally have C: "distinct (fst mosaic_palette) \<longleftrightarrow>
        (\<forall>i<length us. \<forall>j<length us. i \<noteq> j \<longrightarrow> md5 (us ! i) \<noteq> md5 (us ! j))"
    by (simp add: A)
  show ?thesis using A B C unfolding us_def by blast
qed

lemma digest_samples: "is_digest digest_a" "is_digest digest_b"
  by (simp_all add: is_digest_def digest_a_def digest_b_def)

lemma entry_lines_copy_cold: "entry_lines sample_numpy [] a_copy = [digest_a, ''0.0 0.0 0.0'']"
  by (simp add: entry_lines_def eligible_def a_copy_def tile_file_def get_image_black
        average_black colour_line_def sample_numpy_def)

lemma entry_lines_grey_cold: "entry_lines sample_numpy [] grey_file = [digest_b, ''0.5 0.5 0.5'']"
  by (simp add: entry_lines_def eligible_def grey_file_def tile_file_def get_image_grey
        average_grey colour_line_def sample_numpy_def)

lemma astype_samples: "astype_int64 (Finite 0) = 0" "astype_int64 (Finite (1 / 2)) = 0"
  by (simp_all add: astype_int64_def trunc_half) (simp add: trunc_def)

text \<open>
  C1, as the code has it. The directory holds the same tile under two names and there
  is no cache file. The hash is looked up in the loaded record, not in the list being
  built, so the second file is decoded and appended like the first, and the palette
  returned has the same fingerprint twice.
\<close>

theorem get_mosaic_palette_duplicate_fingerprints:
  "snd (get_mosaic_palette sample_numpy False (empty_world\<lparr>mosaics := [a_file, a_copy]\<rparr>))
     = Inr ([digest_a, digest_a], [(0, 0, 0), (0, 0, 0)])
   \<and> name a_file \<noteq> name a_copy"
proof -
  have s: "saved_lines (empty_world\<lparr>mosaics := [a_file, a_copy]\<rparr>) = []"
    by (simp add: saved_lines_def empty_world_def)
  have "parse_mosaic_palette sample_numpy [digest_a, ''0.0 0.0 0.0'', digest_a, ''0.0 0.0 0.0'']
        = Inr ([digest_a, digest_a], [(0, 0, 0), (0, 0, 0)])"
    by (simp add: parse_mosaic_palette_def sample_numpy_def upt_rec astype_samples)
  then have "snd (get_mosaic_palette sample_numpy False (empty_world\<lparr>mosaics := [a_file, a_copy]\<rparr>))
     = Inr ([digest_a, digest_a], [(0, 0, 0), (0, 0, 0)])"
    by (simp add: get_mosaic_palette_result s entry_lines_a_cold entry_lines_copy_cold)
  moreover have "name a_file \<noteq> name a_copy"
    by (simp add: a_file_def a_copy_def tile_file_def)
  ultimately show ?thesis by simp
qed

theorem get_mosaic_palette_fingerprints_witness:
  "\<exists>mosaic_palette.
     snd (get_mosaic_palette sample_numpy False (empty_world\<lparr>mosaics := [a_file, grey_file]\<rparr>))
       = Inr mosaic_palette
     \<and> fst mosaic_palette = [digest_a, digest_b] \<and> distinct (fst mosaic_palette)"
proof -
  let ?w = "empty_world\<lparr>mosaics := [a_file, grey_file]\<rparr>"
  have s: "saved_lines ?w = []" by (simp add: saved_lines_def empty_world_def)
  have h1: "wf_record (saved_lines ?w)" by (simp add: s)
  have h2: "\<forall>e\<in>set (mosaics ?w). \<forall>h. md5 e = Some h \<longrightarrow> is_digest h"
    using digest_samples by (auto simp: a_file_def grey_file_def tile_file_def)
  have "parse_mosaic_palette sample_numpy [digest_a, ''0.0 0.0 0.0'', digest_b, ''0.5 0.5 0.5'']
        = Inr ([digest_a, digest_b], [(0, 0, 0), (0, 0, 0)])"
    by (simp add: parse_mosaic_palette_def sample_numpy_def upt_rec astype_samples)
  then have h3: "snd (get_mosaic_palette sample_numpy False ?w)
                 = Inr ([digest_a, digest_b], [(0, 0, 0), (0, 0, 0)])"
    by (simp add: get_mosaic_palette_result s entry_lines_a_cold entry_lines_grey_cold)
  have u: "usable [] a_file" "usable [] grey_file"
    by (simp_all add: usable_def eligible_def a_file_def grey_file_def tile_file_def
          get_image_black get_image_grey)
  have ne: "digest_a \<noteq> digest_b" by (simp add: digest_a_def digest_b_def)
  note T = get_mosaic_palette_fingerprints [OF h1 h2 h3]
  have "fst ([digest_a, digest_b], [(0, 0, 0), (0, 0, 0) :: pixel]) = [the (md5 a_file), the (md5 grey_file)]"
    using T [THEN conjunct1] by (simp add: s u)
  then show ?thesis using h3 ne by (simp add: a_file_def grey_file_def tile_file_def)
qed

end
